theory Spec2Isabelle
  imports Complex_Main "HOL-Library.Product_Lexorder" "HOL-Library.List_Lexorder"
begin

section \<open>Values of the mortality pipeline\<close>

text \<open>
  The embedding follows \<^verbatim>\<open>mortality_pipeline.py\<close>.

  A Python \<^verbatim>\<open>str\<close> is a sequence of Unicode code points, so a string is a list of
  natural numbers; \<open>lit\<close> turns an ASCII literal of the source into that form. The en-dash
  of the range pattern is the single code point 8211.
\<close>

type_synonym pystr = "nat list"

definition lit :: "string \<Rightarrow> pystr" where
  "lit s = map of_char s"

text \<open>
  A numeric cell is a binary64 value: not-a-number (the missing value of pandas), the two
  infinities, a finite number given by the rational it denotes (\<open>Fin 0\<close> is the zero
  with the positive sign), or the zero with the negative sign. A cell of a column of
  integers is the integer, as \<open>Fin\<close> of its value.
\<close>

datatype num = NaN | NInf | Fin rat | NZero | PInf

text \<open>
  A cell of a table is what pandas hands to Python code for it: a number (\<open>Num NaN\<close> when
  the cell is missing, also in a column of text) or a string.
\<close>

datatype cell = Num num | Str pystr

datatype error = KeyError pystr | ValueError | OverflowError

text \<open>
  What the pipeline takes from Python and pandas and the source does not fix is a parameter
  of the model: a theorem about a library \<open>E\<close> holds for every library.
  \<^item> \<open>str_num\<close> is Python's \<^verbatim>\<open>str()\<close> of a number.
  \<^item> \<open>parse_num\<close> is the conversion of a text to a number that \<^verbatim>\<open>pd.to_numeric\<close> applies,
    with \<open>NaN\<close> for a text that is not a number (\<^verbatim>\<open>errors="coerce"\<close>).
  \<^item> \<open>binary64\<close> rounds the exact result of an arithmetic operation to the binary64 number
    that is stored: a finite number, a zero of either sign when the result underflows, or
    an infinity when it overflows.
  \<^item> \<open>uni_lower\<close> is \<^verbatim>\<open>str.lower\<close> on a text that has a code point outside ASCII.
  \<^item> \<open>uni_decimal\<close> gives the value of a code point outside ASCII that is a decimal digit
    (the code points \<^verbatim>\<open>\d\<close> matches in a \<^verbatim>\<open>str\<close> pattern and \<^verbatim>\<open>int\<close> reads), and \<open>None\<close>
    for any other.
  \<^item> \<open>max_str_digits\<close> is the interpreter's limit on the digits \<^verbatim>\<open>int\<close> converts
    (\<^verbatim>\<open>sys.get_int_max_str_digits()\<close>, 4300 unless set), 0 when there is none.
  \<^item> \<open>column_of\<close> is what \<^verbatim>\<open>Series.apply\<close> makes of the Python objects its function
    returned: it chooses the representation of the new column (machine integers, binary64
    numbers, or Python objects when an integer fits neither), under which each object
    becomes a cell; the model lets it raise as well.
  \<^item> \<open>half_sum\<close> is \<^verbatim>\<open>(a + b) / 2\<close> on two columns, in the arithmetic of their
    representation: it raises (\<^verbatim>\<open>OverflowError\<close>, when a sum of Python integers is too
    large for a float), or it gives the cell that results from each pair of cells.
  \<^item> \<open>copy_on_write\<close> tells whether a column taken from a table is a copy (pandas 3, or the
    option of that name) or shares its values with the table.
\<close>

record pylib =
  str_num :: "num \<Rightarrow> pystr"
  parse_num :: "pystr \<Rightarrow> num"
  binary64 :: "rat \<Rightarrow> num"
  uni_lower :: "pystr \<Rightarrow> pystr"
  uni_decimal :: "nat \<Rightarrow> nat option"
  max_str_digits :: nat
  column_of :: "int option list \<Rightarrow> error + (int option \<Rightarrow> cell)"
  half_sum :: "cell list \<Rightarrow> cell list \<Rightarrow> error + (cell \<Rightarrow> cell \<Rightarrow> cell)"
  copy_on_write :: bool

subsection \<open>Floating-point operations\<close>

fun is_inf :: "num \<Rightarrow> bool" where
  "is_inf PInf = True"
| "is_inf NInf = True"
| "is_inf _ = False"

fun is_zero :: "num \<Rightarrow> bool" where
  "is_zero (Fin x) = (x = 0)"
| "is_zero NZero = True"
| "is_zero _ = False"

text \<open>The sign of a number that is not \<open>NaN\<close>, and the value of a finite one.\<close>

fun negative :: "num \<Rightarrow> bool" where
  "negative NInf = True"
| "negative NZero = True"
| "negative (Fin x) = (x < 0)"
| "negative _ = False"

fun val :: "num \<Rightarrow> rat" where
  "val (Fin x) = x"
| "val _ = 0"

definition signed_inf :: "bool \<Rightarrow> num" where
  "signed_inf neg = (if neg then NInf else PInf)"

definition signed_zero :: "bool \<Rightarrow> num" where
  "signed_zero neg = (if neg then NZero else Fin 0)"

text \<open>
  Division and multiplication of IEEE 754, as numpy performs them on binary64 columns: the
  sign of a quotient or product is the product of the signs, a number other than 0 divided
  by 0 is an infinity, 0 / 0, an infinity by an infinity and 0 times an infinity are
  \<open>NaN\<close>, and the exact result of two finite numbers other than 0 is rounded.
\<close>

definition fdiv :: "pylib \<Rightarrow> num \<Rightarrow> num \<Rightarrow> num" where
  "fdiv E x y =
     (if x = NaN \<or> y = NaN then NaN
      else if is_inf x then (if is_inf y then NaN else signed_inf (negative x \<noteq> negative y))
      else if is_inf y then signed_zero (negative x \<noteq> negative y)
      else if is_zero y then (if is_zero x then NaN else signed_inf (negative x \<noteq> negative y))
      else if is_zero x then signed_zero (negative x \<noteq> negative y)
      else binary64 E (val x / val y))"

definition fmul :: "pylib \<Rightarrow> num \<Rightarrow> num \<Rightarrow> num" where
  "fmul E x y =
     (if x = NaN \<or> y = NaN then NaN
      else if is_inf x \<or> is_inf y
        then (if is_zero x \<or> is_zero y then NaN else signed_inf (negative x \<noteq> negative y))
      else if is_zero x \<or> is_zero y then signed_zero (negative x \<noteq> negative y)
      else binary64 E (val x * val y))"

text \<open>
  The operand of a division as a binary64 number: a cell of a column of integers is rounded
  to one, and a cell that is a binary64 number already is its own rounding.
\<close>

definition to_float :: "pylib \<Rightarrow> num \<Rightarrow> num" where
  "to_float E n = (case n of Fin x \<Rightarrow> binary64 E x | _ \<Rightarrow> n)"

text \<open>The comparisons \<^verbatim>\<open>> 0\<close> and \<^verbatim>\<open>>= 0\<close>: false on a missing value.\<close>

fun gt0 :: "num \<Rightarrow> bool" where
  "gt0 NaN = False"
| "gt0 NInf = False"
| "gt0 (Fin x) = (0 < x)"
| "gt0 NZero = False"
| "gt0 PInf = True"

fun ge0 :: "num \<Rightarrow> bool" where
  "ge0 NaN = False"
| "ge0 NInf = False"
| "ge0 (Fin x) = (0 \<le> x)"
| "ge0 NZero = True"
| "ge0 PInf = True"

subsection \<open>Strings and the three patterns\<close>

text \<open>
  \<^verbatim>\<open>str.lower\<close>: on a text of ASCII code points the letters A to Z are folded and nothing
  else changes; on any other text the result is the library's.
\<close>

definition lower_char :: "nat \<Rightarrow> nat" where
  "lower_char c = (if 65 \<le> c \<and> c \<le> 90 then c + 32 else c)"

definition lower :: "pylib \<Rightarrow> pystr \<Rightarrow> pystr" where
  "lower E s = (if list_all (\<lambda>c. c < 128) s then map lower_char s else uni_lower E s)"

text \<open>The class \<^verbatim>\<open>\d\<close>: the ASCII digits and the other decimal digits of Unicode.\<close>

definition is_digit :: "pylib \<Rightarrow> nat \<Rightarrow> bool" where
  "is_digit E c = (if c < 128 then 48 \<le> c \<and> c \<le> 57 else uni_decimal E c \<noteq> None)"

definition digit_value :: "pylib \<Rightarrow> nat \<Rightarrow> int" where
  "digit_value E c =
     (if c < 128 then int c - 48 else (case uni_decimal E c of Some v \<Rightarrow> int v | None \<Rightarrow> 0))"

text \<open>
  \<^verbatim>\<open>int(...)\<close> of a group of digits (the groups of the patterns hold digits only). A group of
  more than 640 digits that is longer than the limit, when there is a limit, raises
  \<^verbatim>\<open>ValueError\<close>.
\<close>

definition py_int :: "pylib \<Rightarrow> pystr \<Rightarrow> error + int" where
  "py_int E ds =
     (if 640 < length ds \<and> 0 < max_str_digits E \<and> max_str_digits E < length ds
      then Inl ValueError
      else Inr (foldl (\<lambda>a c. 10 * a + digit_value E c) 0 ds))"

text \<open>\<^verbatim>\<open>sub in s\<close>: the substring test.\<close>

fun starts_with :: "pystr \<Rightarrow> pystr \<Rightarrow> bool" where
  "starts_with [] s = True"
| "starts_with (a # as) [] = False"
| "starts_with (a # as) (c # cs) = (a = c \<and> starts_with as cs)"

fun contains :: "pystr \<Rightarrow> pystr \<Rightarrow> bool" where
  "contains sub [] = (sub = [])"
| "contains sub (c # cs) = (starts_with sub (c # cs) \<or> contains sub cs)"

text \<open>
  A pattern is matched at a position as the backtracking matcher does: \<^verbatim>\<open>(\d+)\<close> first takes
  the longest run of digits and gives digits back one at a time while the rest of the
  pattern fails. The continuation receives the group and the text after it.
\<close>

fun backtrack :: "nat \<Rightarrow> (pystr \<Rightarrow> pystr \<Rightarrow> 'a option) \<Rightarrow> pystr \<Rightarrow> 'a option" where
  "backtrack 0 k s = None"
| "backtrack (Suc n) k s =
     (case k (take (Suc n) s) (drop (Suc n) s) of
        Some r \<Rightarrow> Some r
      | None \<Rightarrow> backtrack n k s)"

definition digits1 ::
  "pylib \<Rightarrow> (pystr \<Rightarrow> pystr \<Rightarrow> 'a option) \<Rightarrow> pystr \<Rightarrow> 'a option" where
  "digits1 E k s = backtrack (length (takeWhile (is_digit E) s)) k s"

definition one_of :: "nat list \<Rightarrow> (pystr \<Rightarrow> 'a option) \<Rightarrow> pystr \<Rightarrow> 'a option" where
  "one_of cls k s = (case s of [] \<Rightarrow> None | c # cs \<Rightarrow> if c \<in> set cls then k cs else None)"

text \<open>\<^verbatim>\<open>(\d+)\+\<close>, \<^verbatim>\<open>(\d+)[-D](\d+)\<close> (D the hyphen or the en-dash) and \<^verbatim>\<open>(\d+)\<close>, anchored at the start of the text.\<close>

definition re_plus :: "pylib \<Rightarrow> pystr \<Rightarrow> pystr option" where
  "re_plus E = digits1 E (\<lambda>g rest. one_of [43] (\<lambda>_. Some g) rest)"

definition re_range :: "pylib \<Rightarrow> pystr \<Rightarrow> (pystr \<times> pystr) option" where
  "re_range E =
     digits1 E (\<lambda>g1 rest. one_of [45, 8211] (digits1 E (\<lambda>g2 _. Some (g1, g2))) rest)"

definition re_num :: "pylib \<Rightarrow> pystr \<Rightarrow> pystr option" where
  "re_num E = digits1 E (\<lambda>g _. Some g)"

text \<open>\<^verbatim>\<open>re.search\<close>: the match at the leftmost position that has one.\<close>

fun re_search :: "(pystr \<Rightarrow> 'a option) \<Rightarrow> pystr \<Rightarrow> 'a option" where
  "re_search m [] = m []"
| "re_search m (c # cs) = (case m (c # cs) of Some r \<Rightarrow> Some r | None \<Rightarrow> re_search m cs)"

subsection \<open>The age-band parsers\<close>

fun isna :: "cell \<Rightarrow> bool" where
  "isna (Num NaN) = True"
| "isna _ = False"

fun py_str :: "pylib \<Rightarrow> cell \<Rightarrow> pystr" where
  "py_str E (Str s) = s"
| "py_str E (Num n) = str_num E n"

text \<open>
  A parser returns a Python \<^verbatim>\<open>int\<close> (\<open>Some\<close>) or \<^verbatim>\<open>np.nan\<close> (\<open>None\<close>), or raises what
  \<^verbatim>\<open>int\<close> raises. \<open>returning f\<close> is \<^verbatim>\<open>return f(int(...))\<close>.
\<close>

definition returning :: "(int \<Rightarrow> int) \<Rightarrow> error + int \<Rightarrow> error + int option" where
  "returning f x = (case x of Inl e \<Rightarrow> Inl e | Inr n \<Rightarrow> Inr (Some (f n)))"

definition parse_age_min :: "pylib \<Rightarrow> cell \<Rightarrow> error + int option" where
  "parse_age_min E grp =
     (if isna grp then Inr None
      else let s = lower E (py_str E grp) in
        if contains (lit ''under'') s then Inr (Some 0)
        else if contains (lit ''not'') s \<or> contains (lit ''unknown'') s then Inr None
        else case re_search (re_plus E) s of
          Some g \<Rightarrow> returning (\<lambda>n. n) (py_int E g)
        | None \<Rightarrow>
           (case re_search (re_range E) s of
              Some (g1, g2) \<Rightarrow> returning (\<lambda>n. n) (py_int E g1)
            | None \<Rightarrow>
               (case re_search (re_num E) s of
                  Some g \<Rightarrow> returning (\<lambda>n. n) (py_int E g)
                | None \<Rightarrow> Inr None)))"

definition parse_age_max :: "pylib \<Rightarrow> cell \<Rightarrow> error + int option" where
  "parse_age_max E grp =
     (if isna grp then Inr None
      else let s = lower E (py_str E grp) in
        if contains (lit ''under'') s then Inr (Some 1)
        else if contains (lit ''not'') s \<or> contains (lit ''unknown'') s then Inr None
        else case re_search (re_range E) s of
          Some (g1, g2) \<Rightarrow> returning (\<lambda>n. n) (py_int E g2)
        | None \<Rightarrow>
           (case re_search (re_plus E) s of
              Some g \<Rightarrow> returning (\<lambda>n. n + 9) (py_int E g)
            | None \<Rightarrow>
               (case re_search (re_num E) s of
                  Some g \<Rightarrow> returning (\<lambda>n. n) (py_int E g)
                | None \<Rightarrow> Inr None)))"

section \<open>Tables and the objects that hold them\<close>

text \<open>
  A \<^verbatim>\<open>DataFrame\<close> is its list of column labels and its rows, each row a map from a label
  to a cell. The operations the pipeline applies to whole columns work element by element,
  so they are maps over the rows. Row labels (the index) are not modelled.
\<close>

type_synonym row = "pystr \<rightharpoonup> cell"

record frame =
  columns :: "pystr list"
  rows :: "row list"

definition cell_of :: "row \<Rightarrow> pystr \<Rightarrow> cell" where
  "cell_of r c = (case r c of Some v \<Rightarrow> v | None \<Rightarrow> Num NaN)"

text \<open>
  The number in a cell of a numeric column. The pipeline reads it only from columns that it
  has converted or computed before, whose cells are numbers.
\<close>

fun as_num :: "cell \<Rightarrow> num" where
  "as_num (Num n) = n"
| "as_num (Str s) = NaN"

definition has_col :: "frame \<Rightarrow> pystr \<Rightarrow> bool" where
  "has_col df c = (c \<in> set (columns df))"

text \<open>\<^verbatim>\<open>df[c] = values\<close>, the values given row by row: a new column goes last.\<close>

definition set_col :: "pystr \<Rightarrow> (row \<Rightarrow> cell) \<Rightarrow> frame \<Rightarrow> frame" where
  "set_col c f df =
     \<lparr>columns = (if c \<in> set (columns df) then columns df else columns df @ [c]),
      rows = map (\<lambda>r. r(c \<mapsto> f r)) (rows df)\<rparr>"

text \<open>\<^verbatim>\<open>df.drop(columns=cs)\<close>, every label of \<open>cs\<close> being a column.\<close>

definition drop_cols :: "pystr list \<Rightarrow> frame \<Rightarrow> frame" where
  "drop_cols cs df =
     \<lparr>columns = filter (\<lambda>c. c \<notin> set cs) (columns df),
      rows = map (\<lambda>r. r |` (- set cs)) (rows df)\<rparr>"

text \<open>\<^verbatim>\<open>df[mask]\<close>, the mask given row by row.\<close>

definition select_rows :: "(row \<Rightarrow> bool) \<Rightarrow> frame \<Rightarrow> frame" where
  "select_rows keep df = \<lparr>columns = columns df, rows = filter keep (rows df)\<rparr>"

text \<open>\<^verbatim>\<open>df.rename(columns={old: new})\<close>.\<close>

definition rename_col :: "pystr \<Rightarrow> pystr \<Rightarrow> frame \<Rightarrow> frame" where
  "rename_col old new df =
     \<lparr>columns = map (\<lambda>c. if c = old then new else c) (columns df),
      rows = map (\<lambda>r. (r(old := None))(new := r old)) (rows df)\<rparr>"

text \<open>
  Tables are objects: a name of the program holds a reference, and an assignment to a column
  changes the object for every holder of the reference. The store maps references to
  tables; \<open>fresh\<close> is the next unused reference.
\<close>

record heap =
  obj :: "nat \<Rightarrow> frame"
  fresh :: nat

definition empty_heap :: heap where
  "empty_heap = \<lparr>obj = (\<lambda>_. \<lparr>columns = [], rows = []\<rparr>), fresh = 0\<rparr>"

definition new_obj :: "heap \<Rightarrow> frame \<Rightarrow> heap \<times> nat" where
  "new_obj h f = (\<lparr>obj = (obj h)(fresh h := f), fresh = Suc (fresh h)\<rparr>, fresh h)"

definition mutate :: "heap \<Rightarrow> nat \<Rightarrow> (frame \<Rightarrow> frame) \<Rightarrow> heap" where
  "mutate h p f = \<lparr>obj = (obj h)(p := f (obj h p)), fresh = fresh h\<rparr>"

section \<open>The record cleaner\<close>

text \<open>\<^verbatim>\<open>load_raw\<close>, from the two tables that \<^verbatim>\<open>pd.read_csv\<close> returned.\<close>

definition load_raw :: "heap \<Rightarrow> frame \<Rightarrow> frame \<Rightarrow> heap \<times> nat \<times> nat" where
  "load_raw h0 csv1 csv2 =
     (let (h, df1) = new_obj h0 csv1;
          (h, df2) = new_obj h csv2;
          (h, df2) = (if has_col (obj h df2) (lit ''Single Race 6'')
                      then new_obj h (rename_col (lit ''Single Race 6'') (lit ''Race'') (obj h df2))
                      else (h, df2));
          h = mutate h df1 (set_col (lit ''Source_File'') (\<lambda>_. Str (lit ''2004-2017'')));
          h = mutate h df2 (set_col (lit ''Source_File'') (\<lambda>_. Str (lit ''2018-2023'')))
      in (h, df1, df2))"

definition redundant_cols :: "pystr list" where
  "redundant_cols =
     [lit ''State Code'', lit ''Year Code'', lit ''Ten-Year Age Groups Code'',
      lit ''Race Code'', lit ''Sex Code'', lit ''Single Race 6 Code'']"

text \<open>\<^verbatim>\<open>pd.to_numeric(..., errors="coerce")\<close> on one cell.\<close>

fun to_numeric :: "pylib \<Rightarrow> cell \<Rightarrow> num" where
  "to_numeric E (Num n) = n"
| "to_numeric E (Str s) = parse_num E s"

text \<open>Step 1 (line 100): the table without the redundant columns it has.\<close>

definition drop_redundant :: "frame \<Rightarrow> frame" where
  "drop_redundant df = drop_cols (filter (has_col df) redundant_cols) df"

text \<open>Step 2 (lines 103 to 106): the flag, from the text of the crude rate.\<close>

definition flag_unreliable :: "pylib \<Rightarrow> frame \<Rightarrow> frame" where
  "flag_unreliable E df =
     (if has_col df (lit ''Crude Rate'')
      then set_col (lit ''Unreliable_Flag'')
             (\<lambda>r. Num (Fin (if py_str E (cell_of r (lit ''Crude Rate'')) = lit ''Unreliable''
                             then 1 else 0))) df
      else set_col (lit ''Unreliable_Flag'') (\<lambda>_. Num (Fin 0)) df)"

text \<open>Step 3 (lines 109 to 111): the loop over the three numeric columns.\<close>

definition convert_numeric :: "pylib \<Rightarrow> frame \<Rightarrow> frame" where
  "convert_numeric E df =
     fold (\<lambda>col d. if has_col d col
                    then set_col col (\<lambda>r. Num (to_numeric E (cell_of r col))) d
                    else d)
       [lit ''Year'', lit ''Deaths'', lit ''Population''] df"

text \<open>Step 4 (lines 115 and 118): the reported rate as a number, or a column of missing values.\<close>

definition crude_reported :: "pylib \<Rightarrow> frame \<Rightarrow> frame" where
  "crude_reported E =
     set_col (lit ''CrudeRate_Reported'') (\<lambda>r. Num (to_numeric E (cell_of r (lit ''Crude Rate''))))"

definition crude_missing :: "frame \<Rightarrow> frame" where
  "crude_missing = set_col (lit ''CrudeRate_Reported'') (\<lambda>_. Num NaN)"

text \<open>Step 5 (lines 121 and 122).\<close>

definition replace_sex :: "cell \<Rightarrow> cell" where
  "replace_sex c =
     (if c = Str (lit ''M'') then Str (lit ''Male'')
      else if c = Str (lit ''F'') then Str (lit ''Female'')
      else c)"

definition clean_sex :: "frame \<Rightarrow> frame" where
  "clean_sex df =
     (if has_col df (lit ''Sex'')
      then set_col (lit ''Sex'') (\<lambda>r. replace_sex (cell_of r (lit ''Sex''))) df
      else df)"

text \<open>
  Step 6 (lines 126 and 127), \<^verbatim>\<open>df["Ten-Year Age Groups"].apply(f)\<close>: the parser is called
  on the labels from the first row on, and the first exception ends the call; the objects
  returned become a column.
\<close>

fun collect :: "(error + 'a) list \<Rightarrow> error + 'a list" where
  "collect [] = Inr []"
| "collect (x # xs) =
     (case x of
        Inl e \<Rightarrow> Inl e
      | Inr v \<Rightarrow> (case collect xs of Inl e \<Rightarrow> Inl e | Inr vs \<Rightarrow> Inr (v # vs)))"

definition apply_labels ::
  "pylib \<Rightarrow> (cell \<Rightarrow> error + int option) \<Rightarrow> frame \<Rightarrow> error + (row \<Rightarrow> cell)" where
  "apply_labels E f df =
     (case collect (map (\<lambda>r. f (cell_of r (lit ''Ten-Year Age Groups''))) (rows df)) of
        Inl e \<Rightarrow> Inl e
      | Inr vs \<Rightarrow>
          (case column_of E vs of
             Inl e \<Rightarrow> Inl e
           | Inr conv \<Rightarrow>
               Inr (\<lambda>r. case f (cell_of r (lit ''Ten-Year Age Groups'')) of
                           Inl e \<Rightarrow> Num NaN
                         | Inr v \<Rightarrow> conv v)))"

text \<open>Line 128, \<^verbatim>\<open>df["Age_Mid"] = (df["Age_Min"] + df["Age_Max"]) / 2\<close>.\<close>

definition age_mid :: "pylib \<Rightarrow> frame \<Rightarrow> error + frame" where
  "age_mid E df =
     (case half_sum E (map (\<lambda>r. cell_of r (lit ''Age_Min'')) (rows df))
                      (map (\<lambda>r. cell_of r (lit ''Age_Max'')) (rows df)) of
        Inl e \<Rightarrow> Inl e
      | Inr mid \<Rightarrow>
          Inr (set_col (lit ''Age_Mid'')
                 (\<lambda>r. mid (cell_of r (lit ''Age_Min'')) (cell_of r (lit ''Age_Max''))) df))"

text \<open>
  Step 7 (line 131), once both columns are known to exist: \<^verbatim>\<open>deaths / population * 100000\<close>
  on the numbers of a row, and the column of these.
\<close>

definition rate_per_100k :: "pylib \<Rightarrow> num \<Rightarrow> num \<Rightarrow> num" where
  "rate_per_100k E deaths population =
     fmul E (fdiv E (to_float E deaths) (to_float E population)) (Fin 100000)"

definition crude_calculated :: "pylib \<Rightarrow> frame \<Rightarrow> frame" where
  "crude_calculated E =
     set_col (lit ''CrudeRate_Calculated'')
       (\<lambda>r. Num (rate_per_100k E (as_num (cell_of r (lit ''Deaths'')))
                                    (as_num (cell_of r (lit ''Population'')))))"

text \<open>
  Line 132, \<^verbatim>\<open>df["CrudeRate_Calculated"].replace([np.inf, -np.inf], np.nan, inplace=True)\<close>,
  replaces the infinite values of the column that \<^verbatim>\<open>df[...]\<close> returns. This is its effect
  on the table when that column shares its values with the table; under copy-on-write the
  column is a copy and the table is left as it is (see \<open>derive_columns\<close>).
\<close>

definition replace_inf :: "frame \<Rightarrow> frame" where
  "replace_inf =
     set_col (lit ''CrudeRate_Calculated'')
       (\<lambda>r. if is_inf (as_num (cell_of r (lit ''CrudeRate_Calculated''))) then Num NaN
             else cell_of r (lit ''CrudeRate_Calculated''))"

text \<open>Step 8 (line 135): the mask of the sanity filter.\<close>

definition sane :: "row \<Rightarrow> bool" where
  "sane r = (gt0 (as_num (cell_of r (lit ''Population''))) \<and> ge0 (as_num (cell_of r (lit ''Deaths''))))"

text \<open>
  Lines 125 to 128, on the object that \<^verbatim>\<open>df\<close> holds. An exception leaves the columns
  assigned before it in place.
\<close>

definition parse_age_bands :: "pylib \<Rightarrow> heap \<Rightarrow> nat \<Rightarrow> heap \<times> (error + unit)" where
  "parse_age_bands E h df =
     (if has_col (obj h df) (lit ''Ten-Year Age Groups'')
      then
        (case apply_labels E (parse_age_min E) (obj h df) of
           Inl e \<Rightarrow> (h, Inl e)
         | Inr amin \<Rightarrow>
             (let h = mutate h df (set_col (lit ''Age_Min'') amin)
              in case apply_labels E (parse_age_max E) (obj h df) of
                   Inl e \<Rightarrow> (h, Inl e)
                 | Inr amax \<Rightarrow>
                     (let h = mutate h df (set_col (lit ''Age_Max'') amax)
                      in case age_mid E (obj h df) of
                           Inl e \<Rightarrow> (h, Inl e)
                         | Inr with_mid \<Rightarrow> (mutate h df (\<lambda>_. with_mid), Inr ()))))
      else (h, Inr ()))"

text \<open>
  Lines 89 to 132 of \<^verbatim>\<open>clean_mortality\<close>: the copy and steps 1 to 7. The name \<^verbatim>\<open>df\<close> is
  bound to a new object by the copy and by each \<^verbatim>\<open>drop\<close>; every other statement changes
  the object that \<^verbatim>\<open>df\<close> holds. Reading a column that the table lacks raises
  \<^verbatim>\<open>KeyError\<close>.
\<close>

definition derive_columns :: "pylib \<Rightarrow> heap \<Rightarrow> nat \<Rightarrow> heap \<times> (error + nat)" where
  "derive_columns E h0 df0 =
     (let (h, df) = new_obj h0 (obj h0 df0);
          (h, df) = new_obj h (drop_redundant (obj h df));
          h = mutate h df (flag_unreliable E);
          h = mutate h df (convert_numeric E);
          (h, df) = (if has_col (obj h df) (lit ''Crude Rate'')
                     then (let h = mutate h df (crude_reported E)
                           in new_obj h (drop_cols [lit ''Crude Rate''] (obj h df)))
                     else (mutate h df crude_missing, df));
          h = mutate h df clean_sex
      in case parse_age_bands E h df of
           (h, Inl e) \<Rightarrow> (h, Inl e)
         | (h, Inr u) \<Rightarrow>
             if \<not> has_col (obj h df) (lit ''Deaths'') then (h, Inl (KeyError (lit ''Deaths'')))
             else if \<not> has_col (obj h df) (lit ''Population'')
               then (h, Inl (KeyError (lit ''Population'')))
             else (let h = mutate h df (crude_calculated E);
                       h = (if copy_on_write E then h else mutate h df replace_inf)
                   in (h, Inr df)))"

text \<open>\<^verbatim>\<open>clean_mortality\<close>: the above, then step 8 and the return.\<close>

definition clean_mortality :: "pylib \<Rightarrow> heap \<Rightarrow> nat \<Rightarrow> heap \<times> (error + nat)" where
  "clean_mortality E h0 df0 =
     (case derive_columns E h0 df0 of
        (h, Inl e) \<Rightarrow> (h, Inl e)
      | (h, Inr df) \<Rightarrow>
          if \<not> has_col (obj h df) (lit ''Population'')
            then (h, Inl (KeyError (lit ''Population'')))
          else if \<not> has_col (obj h df) (lit ''Deaths'') then (h, Inl (KeyError (lit ''Deaths'')))
          else (let (h, df) = new_obj h (select_rows sane (obj h df)) in (h, Inr df)))"

section \<open>Merging and ordering\<close>

text \<open>
  \<^verbatim>\<open>pd.concat([a, b], ignore_index=True)\<close>: the columns of \<open>a\<close>, then those only \<open>b\<close> has;
  a row gets a missing value in a column its table lacks.
\<close>

definition reindex :: "pystr list \<Rightarrow> row \<Rightarrow> row" where
  "reindex cols r = (\<lambda>c. if c \<in> set cols then Some (cell_of r c) else None)"

definition concat2 :: "frame \<Rightarrow> frame \<Rightarrow> frame" where
  "concat2 a b =
     (let cols = columns a @ filter (\<lambda>c. c \<notin> set (columns a)) (columns b)
      in \<lparr>columns = cols, rows = map (reindex cols) (rows a) @ map (reindex cols) (rows b)\<rparr>)"

text \<open>
  The place of a cell in the order of its column: numbers by value, then strings by code
  points, and missing values last (\<^verbatim>\<open>na_position="last"\<close>).
\<close>

fun rank :: "cell \<Rightarrow> nat \<times> rat \<times> pystr" where
  "rank (Num NInf) = (0, 0, [])"
| "rank (Num (Fin x)) = (1, x, [])"
| "rank (Num NZero) = (1, 0, [])"
| "rank (Num PInf) = (2, 0, [])"
| "rank (Str s) = (3, 0, s)"
| "rank (Num NaN) = (4, 0, [])"

text \<open>The composite key of a row, compared component by component from the left.\<close>

definition sort_key :: "pystr list \<Rightarrow> row \<Rightarrow> (nat \<times> rat \<times> pystr) list" where
  "sort_key ks r = map (\<lambda>c. rank (cell_of r c)) ks"

text \<open>\<^verbatim>\<open>kind="mergesort"\<close>: of two rows with equal keys the one of the left half goes first.\<close>

fun merge_by :: "('a \<Rightarrow> 'k::linorder) \<Rightarrow> 'a list \<Rightarrow> 'a list \<Rightarrow> 'a list" where
  "merge_by key [] bs = bs"
| "merge_by key (a # as) [] = a # as"
| "merge_by key (a # as) (b # bs) =
     (if key a \<le> key b then a # merge_by key as (b # bs) else b # merge_by key (a # as) bs)"

function mergesort :: "('a \<Rightarrow> 'k::linorder) \<Rightarrow> 'a list \<Rightarrow> 'a list" where
  "mergesort key [] = []"
| "mergesort key [a] = [a]"
| "mergesort key (a # b # cs) =
     (let half = length (a # b # cs) div 2
      in merge_by key (mergesort key (take half (a # b # cs)))
                      (mergesort key (drop half (a # b # cs))))"
  by pat_completeness auto
termination
  by (relation "measure (\<lambda>(key, xs). length xs)") auto

text \<open>
  \<^verbatim>\<open>df.sort_values(by=..., kind="mergesort").reset_index(drop=True)\<close>: a label that is not
  a column raises \<^verbatim>\<open>KeyError\<close>.
\<close>

definition sort_values :: "pystr list \<Rightarrow> frame \<Rightarrow> error + frame" where
  "sort_values ks df =
     (case filter (\<lambda>c. \<not> has_col df c) ks of
        c # _ \<Rightarrow> Inl (KeyError c)
      | [] \<Rightarrow> Inr \<lparr>columns = columns df, rows = mergesort (sort_key ks) (rows df)\<rparr>)"

definition sort_cols :: "pystr list" where
  "sort_cols = [lit ''State'', lit ''Year'', lit ''Age_Min'', lit ''Sex'', lit ''Race'']"

text \<open>
  \<^verbatim>\<open>main\<close>, from the two tables read to the table written: an exception of a step ends
  the run.
\<close>

definition main :: "pylib \<Rightarrow> frame \<Rightarrow> frame \<Rightarrow> error + frame" where
  "main E csv1 csv2 =
     (let (h, df1_raw, df2_raw) = load_raw empty_heap csv1 csv2
      in case clean_mortality E h df1_raw of
           (h, Inl e) \<Rightarrow> Inl e
         | (h, Inr clean1) \<Rightarrow>
             (case clean_mortality E h df2_raw of
                (h, Inl e) \<Rightarrow> Inl e
              | (h, Inr clean2) \<Rightarrow>
                  sort_values sort_cols (concat2 (obj h clean1) (obj h clean2))))"

section \<open>Tables at intermediate lines, and what a step leaves alone\<close>

text \<open>
  The following are not functions of the source: they name the table that \<^verbatim>\<open>df\<close> holds at a
  line of \<^verbatim>\<open>clean_mortality\<close>, as a function of the table passed in, so that the lemmas
  can speak of it. \<open>crude_step\<close> is step 4, \<open>before_ages\<close> the table when line 125 is
  reached, \<open>age_step\<close> the outcome of step 6 on a table (the table it leaves, or the exception),
  and \<open>rate_step\<close> what lines 131 and 132 make of a table.
\<close>

definition crude_step :: "pylib \<Rightarrow> frame \<Rightarrow> frame" where
  "crude_step E d =
     (if has_col d (lit ''Crude Rate'')
      then drop_cols [lit ''Crude Rate''] (crude_reported E d)
      else crude_missing d)"

definition before_ages :: "pylib \<Rightarrow> frame \<Rightarrow> frame" where
  "before_ages E df =
     clean_sex (crude_step E (convert_numeric E (flag_unreliable E (drop_redundant df))))"

definition age_step :: "pylib \<Rightarrow> frame \<Rightarrow> error + frame" where
  "age_step E d =
     (if has_col d (lit ''Ten-Year Age Groups'')
      then
        (case apply_labels E (parse_age_min E) d of
           Inl e \<Rightarrow> Inl e
         | Inr amin \<Rightarrow>
             (case apply_labels E (parse_age_max E) (set_col (lit ''Age_Min'') amin d) of
                Inl e \<Rightarrow> Inl e
              | Inr amax \<Rightarrow>
                  age_mid E (set_col (lit ''Age_Max'') amax (set_col (lit ''Age_Min'') amin d))))
      else Inr d)"

definition rate_step :: "pylib \<Rightarrow> frame \<Rightarrow> frame" where
  "rate_step E d =
     (if copy_on_write E then crude_calculated E d else replace_inf (crude_calculated E d))"

text \<open>
  \<open>derived\<close> and \<open>cleaned\<close> are the outcomes of \<open>derive_columns\<close> and of
  \<^verbatim>\<open>clean_mortality\<close> as functions of the table passed in: the table that results, or
  the exception (see \<open>returned_derive_columns\<close> and \<open>returned_clean_mortality\<close>).
\<close>

definition derived :: "pylib \<Rightarrow> frame \<Rightarrow> error + frame" where
  "derived E df =
     (case age_step E (before_ages E df) of
        Inl e \<Rightarrow> Inl e
      | Inr b \<Rightarrow>
          if \<not> has_col b (lit ''Deaths'') then Inl (KeyError (lit ''Deaths''))
          else if \<not> has_col b (lit ''Population'') then Inl (KeyError (lit ''Population''))
          else Inr (rate_step E b))"

definition cleaned :: "pylib \<Rightarrow> frame \<Rightarrow> error + frame" where
  "cleaned E df =
     (case derived E df of
        Inl e \<Rightarrow> Inl e
      | Inr t \<Rightarrow> Inr (select_rows sane t))"

text \<open>Two rows agree off a set of columns when they hold the same cell in every other column.\<close>

definition agree_off :: "pystr set \<Rightarrow> row \<Rightarrow> row \<Rightarrow> bool" where
  "agree_off S r r' = (\<forall>c. c \<notin> S \<longrightarrow> r' c = r c)"

definition late_cols :: "pystr set" where
  "late_cols = {lit ''Crude Rate'', lit ''CrudeRate_Reported'', lit ''Sex'',
                lit ''Age_Min'', lit ''Age_Max'', lit ''Age_Mid''}"

section \<open>Example tables\<close>

text \<open>
  Concrete inputs on which the model is run. \<open>lib0\<close> stands in for the library as far as
  the examples need it: it reads the text \<^verbatim>\<open>10.0\<close> and no other, writes every number as
  \<^verbatim>\<open>nan\<close>, computes exactly (the numbers of the examples are binary64 numbers, and so are
  the results on them), knows no digit and no letter outside ASCII, and shares the values of
  a column with its table; \<open>lib_cow\<close> differs in that it copies on write, \<open>lib_arabic\<close> in
  that it knows the Arabic-Indic digits, the code points 1632 to 1641. \<open>store t\<close> is a
  store whose only object, at reference 0, is the table \<open>t\<close>; \<open>returned\<close> is the table a
  call returns and \<open>cells\<close> lists the cells of chosen columns, row by row.
\<close>

definition lib0 :: pylib where
  "lib0 =
     \<lparr>str_num = (\<lambda>n. lit ''nan''),
      parse_num = (\<lambda>s. if s = lit ''10.0'' then Fin 10 else NaN),
      binary64 = Fin,
      uni_lower = map lower_char,
      uni_decimal = (\<lambda>c. None),
      max_str_digits = 4300,
      column_of = (\<lambda>vs. Inr (\<lambda>v. case v of None \<Rightarrow> Num NaN | Some n \<Rightarrow> Num (Fin (of_int n)))),
      half_sum = (\<lambda>as bs. Inr (\<lambda>a b. case (a, b) of
                     (Num (Fin x), Num (Fin y)) \<Rightarrow> Num (Fin ((x + y) / 2))
                   | _ \<Rightarrow> Num NaN)),
      copy_on_write = False\<rparr>"


definition lib_arabic :: pylib where
  "lib_arabic =
     lib0\<lparr>uni_decimal := (\<lambda>c. if 1632 \<le> c \<and> c \<le> 1641 then Some (c - 1632) else None)\<rparr>"

definition row_of :: "(string \<times> cell) list \<Rightarrow> row" where
  "row_of kvs = map_of (map (\<lambda>(k, v). (lit k, v)) kvs)"

definition table_of :: "string list \<Rightarrow> cell list list \<Rightarrow> frame" where
  "table_of cols vss = \<lparr>columns = map lit cols, rows = map (\<lambda>vs. row_of (zip cols vs)) vss\<rparr>"

definition store :: "frame \<Rightarrow> heap" where
  "store t = fst (new_obj empty_heap t)"

definition returned :: "heap \<times> (error + nat) \<Rightarrow> error + frame" where
  "returned x = (case x of (h, Inl e) \<Rightarrow> Inl e | (h, Inr q) \<Rightarrow> Inr (obj h q))"

definition cells :: "string list \<Rightarrow> error + frame \<Rightarrow> error + cell option list list" where
  "cells cs x = (case x of Inl e \<Rightarrow> Inl e | Inr df \<Rightarrow> Inr (map (\<lambda>r. map (\<lambda>c. r (lit c)) cs) (rows df)))"

definition raw_cols :: "string list" where
  "raw_cols = [''State'', ''State Code'', ''Year'', ''Ten-Year Age Groups'', ''Sex'', ''Race'',
               ''Deaths'', ''Population'', ''Crude Rate'']"

text \<open>One row of the first file, and two of the second, one of them with no population.\<close>

definition table_a :: frame where
  "table_a = table_of raw_cols
     [[Str (lit ''CA''), Num (Fin 6), Num (Fin 2010), Str (lit ''45-54 years''), Str (lit ''M''),
       Str (lit ''White''), Num (Fin 10), Num (Fin 100000), Str (lit ''10.0'')]]"

definition table_b :: frame where
  "table_b = table_of (raw_cols[5 := ''Single Race 6''])
     [[Str (lit ''CA''), Num (Fin 6), Num (Fin 2019), Str (lit ''45-54 years''), Str (lit ''F''),
       Str (lit ''White''), Num (Fin 10), Num (Fin 0), Str (lit ''Unreliable'')],
      [Str (lit ''AL''), Num (Fin 1), Num (Fin 2019), Str (lit ''85+ years''), Str (lit ''F''),
       Str (lit ''White''), Num (Fin 3), Num (Fin 64), Str (lit ''Unreliable'')]]"

text \<open>
  A table with no column of deaths, one whose count of deaths is infinite, and one with a
  death in a population of 0.
\<close>

definition table_no_deaths :: frame where
  "table_no_deaths = table_of [''State'', ''Population''] [[Str (lit ''CA''), Num (Fin 100000)]]"

definition table_inf :: frame where
  "table_inf = table_of [''Deaths'', ''Population''] [[Num PInf, Num (Fin 1)]]"

definition table_zero :: frame where
  "table_zero = table_of [''Deaths'', ''Population''] [[Num (Fin 1), Num (Fin 0)]]"

text \<open>Rows of which the first and the third have the same key.\<close>

definition table_ties :: frame where
  "table_ties = table_of [''State'', ''Year'', ''Age_Min'', ''Sex'', ''Race'', ''Deaths'']
     [[Str (lit ''TX''), Num (Fin 2010), Num (Fin 5), Str (lit ''Male''), Str (lit ''White''), Num (Fin 1)],
      [Str (lit ''AL''), Num (Fin 2010), Num NaN, Str (lit ''Male''), Str (lit ''White''), Num (Fin 2)],
      [Str (lit ''TX''), Num (Fin 2010), Num (Fin 5), Str (lit ''Male''), Str (lit ''White''), Num (Fin 3)],
      [Str (lit ''AL''), Num (Fin 2010), Num (Fin 85), Str (lit ''Male''), Str (lit ''White''), Num (Fin 4)]]"

section \<open>Lemmas on the patterns and the parsers\<close>

lemma lit_eq_iff [simp]: "lit a = lit b \<longleftrightarrow> a = b"
  by (simp add: lit_def inj_map_eq_map inj_on_def)

lemma backtrack_Some:
  "backtrack n k s = Some r \<Longrightarrow> \<exists>m. 0 < m \<and> m \<le> n \<and> k (take m s) (drop m s) = Some r"
proof (induction n)
  case 0
  then show ?case by simp
next
  case (Suc n)
  show ?case
  proof (cases "k (take (Suc n) s) (drop (Suc n) s)")
    case None
    with Suc.prems have "backtrack n k s = Some r" by simp
    from Suc.IH [OF this] obtain m where "0 < m" "m \<le> n" "k (take m s) (drop m s) = Some r"
      by blast
    then show ?thesis by (intro exI [of _ m]) simp
  next
    case (Some a)
    with Suc.prems have "a = r" by simp
    with Some show ?thesis by (intro exI [of _ "Suc n"]) simp
  qed
qed

lemma digits1_Some:
  assumes "digits1 E k s = Some r"
  obtains g rest where "g \<noteq> []" "\<forall>c\<in>set g. is_digit E c" "s = g @ rest" "k g rest = Some r"
proof -
  from assms obtain m where m: "0 < m" "m \<le> length (takeWhile (is_digit E) s)"
    "k (take m s) (drop m s) = Some r"
    unfolding digits1_def by (blast dest: backtrack_Some)
  have "take m s = take m (takeWhile (is_digit E) s)"
    by (metis m(2) takeWhile_dropWhile_id take_append append_Nil2 diff_is_0_eq' take_0)
  then have "\<forall>c\<in>set (take m s). is_digit E c"
    by (metis in_set_takeD set_takeWhileD)
  moreover have "take m s \<noteq> []"
    using m(1,2) by (cases s) auto
  ultimately show thesis
    using m(3) that [of "take m s" "drop m s"] by simp
qed

lemma digit_value_nonneg: "is_digit E c \<Longrightarrow> 0 \<le> digit_value E c"
  by (auto simp: is_digit_def digit_value_def split: if_splits option.splits)

lemma py_int_nonneg:
  assumes "py_int E ds = Inr n" "\<forall>c\<in>set ds. is_digit E c"
  shows "0 \<le> n"
proof -
  have "\<forall>c\<in>set ds. is_digit E c \<Longrightarrow> 0 \<le> a \<Longrightarrow>
        0 \<le> foldl (\<lambda>a c. 10 * a + digit_value E c) a ds" for a
    by (induction ds arbitrary: a) (auto simp: digit_value_nonneg)
  with assms show ?thesis
    by (auto simp: py_int_def split: if_splits)
qed

lemma re_plus_Some:
  assumes "re_plus E s = Some g"
  shows "\<forall>c\<in>set g. is_digit E c"
proof -
  from assms obtain g' rest where *: "\<forall>c\<in>set g'. is_digit E c"
    "one_of [43] (\<lambda>_. Some g') rest = Some g"
    unfolding re_plus_def by (rule digits1_Some)
  then show ?thesis
    by (auto simp: one_of_def split: list.splits if_splits)
qed

lemma re_range_Some:
  assumes "re_range E s = Some (g1, g2)"
  shows "(\<forall>c\<in>set g1. is_digit E c) \<and> (\<forall>c\<in>set g2. is_digit E c)"
proof -
  from assms obtain g rest where *: "\<forall>c\<in>set g. is_digit E c"
    "one_of [45, 8211] (digits1 E (\<lambda>g2 _. Some (g, g2))) rest = Some (g1, g2)"
    unfolding re_range_def by (rule digits1_Some)
  from *(2) obtain rest' where "digits1 E (\<lambda>g2 _. Some (g, g2)) rest' = Some (g1, g2)"
    by (auto simp: one_of_def split: list.splits if_splits)
  then obtain g' where "\<forall>c\<in>set g'. is_digit E c" "Some (g, g') = Some (g1, g2)"
    by (rule digits1_Some)
  with * show ?thesis by simp
qed

lemma re_num_Some: "re_num E s = Some g \<Longrightarrow> \<forall>c\<in>set g. is_digit E c"
  unfolding re_num_def by (erule digits1_Some) simp

lemma re_search_Some:
  "re_search m s = Some r \<Longrightarrow> \<exists>pre t. s = pre @ t \<and> m t = Some r"
proof (induction s)
  case Nil
  then show ?case by simp
next
  case (Cons c cs)
  show ?case
  proof (cases "m (c # cs)")
    case None
    with Cons.prems have "re_search m cs = Some r" by simp
    from Cons.IH [OF this] obtain pre t where "cs = pre @ t" "m t = Some r" by blast
    then show ?thesis by (intro exI [of _ "c # pre"] exI [of _ t]) simp
  next
    case (Some a)
    with Cons.prems show ?thesis by (intro exI [of _ "[]"] exI [of _ "c # cs"]) simp
  qed
qed

lemma returning_nonneg:
  assumes "returning f (py_int E g) = Inr (Some n)" "\<forall>c\<in>set g. is_digit E c"
    "\<And>k. 0 \<le> k \<Longrightarrow> 0 \<le> f k"
  shows "0 \<le> n"
proof (cases "py_int E g")
  case (Inl e)
  with assms(1) show ?thesis by (simp add: returning_def)
next
  case (Inr k)
  with assms(1) have "n = f k" by (simp add: returning_def)
  with assms(3) py_int_nonneg [OF Inr assms(2)] show ?thesis by simp
qed

lemma parse_age_min_nonneg: "parse_age_min E c = Inr (Some n) \<Longrightarrow> 0 \<le> n"
  unfolding parse_age_min_def Let_def
  by (auto split: if_splits option.splits prod.splits
      dest!: re_search_Some dest: re_plus_Some re_range_Some re_num_Some
      elim!: returning_nonneg)

lemma parse_age_max_nonneg: "parse_age_max E c = Inr (Some n) \<Longrightarrow> 0 \<le> n"
  unfolding parse_age_max_def Let_def
  by (auto split: if_splits option.splits prod.splits
      dest!: re_search_Some dest: re_plus_Some re_range_Some re_num_Some
      elim!: returning_nonneg)

lemma digits1_full:
  assumes "g \<noteq> []" "\<forall>c\<in>set g. is_digit E c" "takeWhile (is_digit E) rest = []"
    "k g rest = Some r"
  shows "digits1 E k (g @ rest) = Some r"
proof -
  have "takeWhile (is_digit E) (g @ rest) = g"
    using assms(2,3) by (simp add: takeWhile_append2)
  moreover obtain n where "length g = Suc n"
    using assms(1) by (cases g) auto
  ultimately show ?thesis
    using assms(4) by (simp add: digits1_def)
qed

lemma re_search_hit: "m s = Some r \<Longrightarrow> re_search m s = Some r"
  by (cases s) auto

lemma re_search_skip:
  "\<forall>i<length pre. m (drop i (pre @ s)) = None \<Longrightarrow> re_search m (pre @ s) = re_search m s"
proof (induction pre)
  case Nil
  then show ?case by simp
next
  case (Cons c cs)
  from Cons.prems have "m (c # cs @ s) = None"
    by (auto dest: spec [of _ 0])
  moreover have "\<forall>i<length cs. m (drop i (cs @ s)) = None"
  proof (intro allI impI)
    fix i
    assume "i < length cs"
    with Cons.prems have "m (drop (Suc i) ((c # cs) @ s)) = None"
      by (auto simp del: drop_Suc_Cons append_Cons)
    then show "m (drop i (cs @ s)) = None" by simp
  qed
  ultimately show ?case
    using Cons.IH by simp
qed

lemma re_range_shape:
  assumes "d1 \<noteq> []" "d2 \<noteq> []" "\<forall>c\<in>set d1. is_digit E c" "\<forall>c\<in>set d2. is_digit E c"
    "sep = 45 \<or> sep = 8211" "\<not> is_digit E sep" "takeWhile (is_digit E) rest = []"
  shows "re_search (re_range E) (d1 @ sep # d2 @ rest) = Some (d1, d2)"
proof -
  have "digits1 E (\<lambda>g2 _. Some (d1, g2)) (d2 @ rest) = Some (d1, d2)"
    using assms by (intro digits1_full) auto
  then have "one_of [45, 8211] (digits1 E (\<lambda>g2 _. Some (d1, g2))) (sep # d2 @ rest) =
             Some (d1, d2)"
    using assms(5) by (auto simp: one_of_def)
  moreover have "takeWhile (is_digit E) (sep # d2 @ rest) = []"
    using assms(6) by simp
  ultimately have "re_range E (d1 @ sep # d2 @ rest) = Some (d1, d2)"
    unfolding re_range_def using assms(1,3) by (intro digits1_full) auto
  then show ?thesis by (rule re_search_hit)
qed

text \<open>
  C5. A label has the numeric-range shape when its text, as the parsers read it (in lower
  case), is: some text, the number N1, a hyphen or an en-dash, the number N2, and a rest
  (such as \<^verbatim>\<open> years\<close>) that does not go on with a digit, where the range pattern matches
  nowhere before N1. It is valid when no earlier rule of the parsers claims it (none of the
  words under, not, unknown occurs in it, and the pattern of an open-ended band matches
  nowhere in it) and \<^verbatim>\<open>int\<close> reads N1 and N2. For every such label the parsers return N1
  as the minimum and N2 as the maximum, for either separator.
\<close>

theorem parse_age_range_label:
  assumes shape: "lower E label = pre @ d1 @ sep # d2 @ rest" "sep = 45 \<or> sep = 8211"
      "\<not> is_digit E sep"
    and digits: "d1 \<noteq> []" "d2 \<noteq> []" "\<forall>c\<in>set d1. is_digit E c" "\<forall>c\<in>set d2. is_digit E c"
      "takeWhile (is_digit E) rest = []"
    and first: "\<forall>i<length pre. re_range E (drop i (lower E label)) = None"
    and valid: "re_search (re_plus E) (lower E label) = None"
      "\<not> contains (lit ''under'') (lower E label)"
      "\<not> contains (lit ''not'') (lower E label)"
      "\<not> contains (lit ''unknown'') (lower E label)"
    and ints: "py_int E d1 = Inr n1" "py_int E d2 = Inr n2"
  shows "parse_age_min E (Str label) = Inr (Some n1) \<and>
         parse_age_max E (Str label) = Inr (Some n2)"
proof -
  have "re_search (re_range E) (d1 @ sep # d2 @ rest) = Some (d1, d2)"
    using digits shape(2,3) by (intro re_range_shape) auto
  moreover have "re_search (re_range E) (pre @ d1 @ sep # d2 @ rest) =
                 re_search (re_range E) (d1 @ sep # d2 @ rest)"
    using first unfolding shape(1) by (rule re_search_skip)
  ultimately have range: "re_search (re_range E) (lower E label) = Some (d1, d2)"
    by (simp add: shape(1))
  show ?thesis
    using valid range ints by (simp add: parse_age_min_def parse_age_max_def returning_def)
qed

lemmas parse_ev = parse_age_min_def parse_age_max_def lit_def lower_def lower_char_def re_plus_def
  re_range_def re_num_def digits1_def one_of_def is_digit_def py_int_def digit_value_def
  returning_def

theorem parse_age_range_label_witness:
  "parse_age_min lib0 (Str (lit ''3 15-24 years'')) = Inr (Some 15) \<and>
   parse_age_max lib0 (Str (lit ''3 15-24 years'')) = Inr (Some 24) \<and>
   parse_age_min lib0 (Str (lit ''5'' @ 8211 # lit ''14 Years'')) = Inr (Some 5) \<and>
   parse_age_max lib0 (Str (lit ''5'' @ 8211 # lit ''14 Years'')) = Inr (Some 14)"
proof -
  have a: "parse_age_min lib0 (Str (lit ''3 15-24 years'')) = Inr (Some 15) \<and>
        parse_age_max lib0 (Str (lit ''3 15-24 years'')) = Inr (Some 24)"
  proof (rule parse_age_range_label [where pre = "lit ''3 ''" and ?d1.0 = "lit ''15''"
          and ?d2.0 = "lit ''24''" and sep = 45 and rest = "lit '' years''"])
    show "\<forall>i<length (lit ''3 ''). re_range lib0 (drop i (lower lib0 (lit ''3 15-24 years''))) = None"
      by (simp add: lit_def lower_def lower_char_def re_range_def digits1_def one_of_def
          is_digit_def less_Suc_eq)
  qed (simp_all add: lit_def lower_def lower_char_def is_digit_def re_plus_def digits1_def
        one_of_def py_int_def digit_value_def)
  have b: "parse_age_min lib0 (Str (lit ''5'' @ 8211 # lit ''14 Years'')) = Inr (Some 5) \<and>
        parse_age_max lib0 (Str (lit ''5'' @ 8211 # lit ''14 Years'')) = Inr (Some 14)"
    by (rule parse_age_range_label [where pre = "[]" and ?d1.0 = "lit ''5''"
          and ?d2.0 = "lit ''14''" and sep = 8211 and rest = "lit '' years''"])
      (simp_all add: lit_def lower_def lower_char_def is_digit_def re_plus_def digits1_def
        one_of_def py_int_def digit_value_def lib0_def)
  from a b show ?thesis by simp
qed

text \<open>
  C6. The fixed cases: \<^verbatim>\<open>Under 1 year\<close> gives 0 and 1, \<^verbatim>\<open>85+ years\<close> gives 85 and 94,
  \<^verbatim>\<open>Not Stated\<close> gives two missing bounds, and so does a missing label; none raises.
\<close>

theorem parse_age_fixed_cases:
  "parse_age_min E (Str (lit ''Under 1 year'')) = Inr (Some 0) \<and>
   parse_age_max E (Str (lit ''Under 1 year'')) = Inr (Some 1) \<and>
   parse_age_min E (Str (lit ''85+ years'')) = Inr (Some 85) \<and>
   parse_age_max E (Str (lit ''85+ years'')) = Inr (Some 94) \<and>
   parse_age_min E (Str (lit ''Not Stated'')) = Inr None \<and>
   parse_age_max E (Str (lit ''Not Stated'')) = Inr None \<and>
   parse_age_min E (Num NaN) = Inr None \<and>
   parse_age_max E (Num NaN) = Inr None"
  by (simp add: parse_ev)

text \<open>
  C7. The two parsers try the patterns for an open-ended band and for a range in opposite
  orders. For a label that neither is missing nor holds one of the words of the first two
  rules, and in which both patterns match, \<open>parse_age_min\<close> returns what \<^verbatim>\<open>int\<close> makes
  of the group of the plus match and \<open>parse_age_max\<close> what it makes of the second group
  of the range match. The label \<^verbatim>\<open>10-19 85+\<close> is such a label: its minimum is 85 and
  its maximum 19.
\<close>

theorem parse_age_priority_asymmetry:
  "(\<not> isna label \<and>
    \<not> contains (lit ''under'') (lower E (py_str E label)) \<and>
    \<not> contains (lit ''not'') (lower E (py_str E label)) \<and>
    \<not> contains (lit ''unknown'') (lower E (py_str E label)) \<and>
    re_search (re_plus E) (lower E (py_str E label)) = Some g \<and>
    re_search (re_range E) (lower E (py_str E label)) = Some (g1, g2)
    \<longrightarrow> parse_age_min E label = returning (\<lambda>n. n) (py_int E g) \<and>
        parse_age_max E label = returning (\<lambda>n. n) (py_int E g2)) \<and>
   (\<exists>lo hi. parse_age_min E (Str (lit ''10-19 85+'')) = Inr (Some lo) \<and>
            parse_age_max E (Str (lit ''10-19 85+'')) = Inr (Some hi) \<and> hi < lo)"
proof
  show "\<not> isna label \<and>
    \<not> contains (lit ''under'') (lower E (py_str E label)) \<and>
    \<not> contains (lit ''not'') (lower E (py_str E label)) \<and>
    \<not> contains (lit ''unknown'') (lower E (py_str E label)) \<and>
    re_search (re_plus E) (lower E (py_str E label)) = Some g \<and>
    re_search (re_range E) (lower E (py_str E label)) = Some (g1, g2)
    \<longrightarrow> parse_age_min E label = returning (\<lambda>n. n) (py_int E g) \<and>
        parse_age_max E label = returning (\<lambda>n. n) (py_int E g2)"
    by (simp add: parse_age_min_def parse_age_max_def)
  have "parse_age_min E (Str (lit ''10-19 85+'')) = Inr (Some 85)"
    "parse_age_max E (Str (lit ''10-19 85+'')) = Inr (Some 19)"
    by (simp_all add: parse_ev)
  then show "\<exists>lo hi. parse_age_min E (Str (lit ''10-19 85+'')) = Inr (Some lo) \<and>
            parse_age_max E (Str (lit ''10-19 85+'')) = Inr (Some hi) \<and> hi < lo"
    by simp
qed

theorem parse_age_priority_asymmetry_witness:
  "\<forall>E. re_search (re_plus E) (lower E (lit ''10-19 85+'')) = Some (lit ''85'') \<and>
        re_search (re_range E) (lower E (lit ''10-19 85+'')) = Some (lit ''10'', lit ''19'') \<and>
        parse_age_min E (Str (lit ''10-19 85+'')) = Inr (Some 85) \<and>
        parse_age_max E (Str (lit ''10-19 85+'')) = Inr (Some 19)"
proof
  fix E
  have p: "re_search (re_plus E) (lower E (lit ''10-19 85+'')) = Some (lit ''85'')"
    and r: "re_search (re_range E) (lower E (lit ''10-19 85+'')) = Some (lit ''10'', lit ''19'')"
    and k: "\<not> contains (lit ''under'') (lower E (lit ''10-19 85+''))"
      "\<not> contains (lit ''not'') (lower E (lit ''10-19 85+''))"
      "\<not> contains (lit ''unknown'') (lower E (lit ''10-19 85+''))"
    by (simp_all add: lit_def lower_def lower_char_def re_plus_def re_range_def digits1_def
        one_of_def is_digit_def)
  have v: "returning (\<lambda>n. n) (py_int E (lit ''85'')) = Inr (Some 85)"
    "returning (\<lambda>n. n) (py_int E (lit ''19'')) = Inr (Some 19)"
    by (simp_all add: py_int_def digit_value_def returning_def lit_def)
  from parse_age_priority_asymmetry
    [of "Str (lit ''10-19 85+'')" E "lit ''85''" "lit ''10''" "lit ''19''"] p r k v
  show "re_search (re_plus E) (lower E (lit ''10-19 85+'')) = Some (lit ''85'') \<and>
        re_search (re_range E) (lower E (lit ''10-19 85+'')) = Some (lit ''10'', lit ''19'') \<and>
        parse_age_min E (Str (lit ''10-19 85+'')) = Inr (Some 85) \<and>
        parse_age_max E (Str (lit ''10-19 85+'')) = Inr (Some 19)"
    by simp
qed

text \<open>
  C10. A bound that a parser returns is never negative: it is 0, 1, the value of a group of
  decimal digits, or such a value plus 9. This holds for every label and every library,
  whatever code points it takes for decimal digits.
\<close>

theorem parse_age_bounds_nonneg:
  "(parse_age_min E label = Inr (Some n) \<longrightarrow> 0 \<le> n) \<and>
   (parse_age_max E label = Inr (Some m) \<longrightarrow> 0 \<le> m)"
  by (blast intro: parse_age_min_nonneg parse_age_max_nonneg)

theorem parse_age_bounds_nonneg_witness:
  "parse_age_min lib0 (Str (lit ''85+ years'')) = Inr (Some 85) \<and> (0::int) \<le> 85 \<and>
   parse_age_max lib0 (Str (lit ''85+ years'')) = Inr (Some 94) \<and> (0::int) \<le> 94 \<and>
   parse_age_min lib_arabic (Str [1635, 1637, 45, 1636, 1636]) = Inr (Some 35) \<and> (0::int) \<le> 35 \<and>
   parse_age_max lib_arabic (Str [1635, 1637, 45, 1636, 1636]) = Inr (Some 44) \<and> (0::int) \<le> 44"
proof -
  have "parse_age_min lib0 (Str (lit ''85+ years'')) = Inr (Some 85)"
    "parse_age_max lib0 (Str (lit ''85+ years'')) = Inr (Some 94)"
    by (simp_all add: parse_ev)
  moreover have "parse_age_min lib_arabic (Str [1635, 1637, 45, 1636, 1636]) = Inr (Some 35)"
    "parse_age_max lib_arabic (Str [1635, 1637, 45, 1636, 1636]) = Inr (Some 44)"
    by (simp_all add: parse_ev lib_arabic_def lib0_def)
  ultimately show ?thesis
    using parse_age_bounds_nonneg [of lib0 "Str (lit ''85+ years'')" 85 94]
      parse_age_bounds_nonneg [of lib_arabic "Str [1635, 1637, 45, 1636, 1636]" 35 44]
    by simp
qed

section \<open>Lemmas on the merge sort\<close>

lemma set_merge_by: "set (merge_by key as bs) = set as \<union> set bs"
  by (induction key as bs rule: merge_by.induct) auto

lemma sorted_merge_by:
  "sorted (map key as) \<Longrightarrow> sorted (map key bs) \<Longrightarrow> sorted (map key (merge_by key as bs))"
  by (induction key as bs rule: merge_by.induct) (auto simp: set_merge_by)

lemma filter_merge_by:
  "sorted (map key as) \<Longrightarrow>
   filter (\<lambda>x. key x = k) (merge_by key as bs) =
   filter (\<lambda>x. key x = k) as @ filter (\<lambda>x. key x = k) bs"
proof (induction key as bs rule: merge_by.induct)
  case (3 key a as b bs)
  show ?case
  proof (cases "key a \<le> key b")
    case True
    with 3 show ?thesis by simp
  next
    case False
    then have "\<forall>x\<in>set (a # as). key b < key x"
      using "3.prems" by auto
    then have "key b = k \<Longrightarrow> filter (\<lambda>x. key x = k) (a # as) = []"
      by (auto simp: filter_empty_conv)
    with False 3 show ?thesis by auto
  qed
qed simp_all

lemma merge_by_sorted_append:
  "sorted (map key (as @ bs)) \<Longrightarrow> merge_by key as bs = as @ bs"
proof (induction key as bs rule: merge_by.induct)
  case (3 key a as b bs)
  then have "key a \<le> key b" by (auto simp: sorted_append)
  moreover have "sorted (map key (as @ b # bs))" using "3.prems" by simp
  ultimately show ?case using 3 by simp
qed simp_all

lemma halves: "take (length xs div 2) xs @ drop (length xs div 2) xs = xs"
  by simp

lemma set_mergesort: "set (mergesort key xs) = set xs"
proof (induction key xs rule: mergesort.induct)
  case (3 key a b cs)
  let ?xs = "a # b # cs"
  have "set (mergesort key ?xs) =
        set (take (length ?xs div 2) ?xs) \<union> set (drop (length ?xs div 2) ?xs)"
    using 3 by (simp add: set_merge_by Let_def del: take_Suc_Cons drop_Suc_Cons take_Cons' drop_Cons')
  also have "\<dots> = set (take (length ?xs div 2) ?xs @ drop (length ?xs div 2) ?xs)"
    by (simp only: set_append)
  finally show ?case by (simp only: halves)
qed simp_all

lemma sorted_mergesort: "sorted (map key (mergesort key xs))"
proof (induction key xs rule: mergesort.induct)
  case (3 key a b cs)
  then show ?case by (simp add: sorted_merge_by Let_def)
qed simp_all

lemma filter_mergesort:
  "filter (\<lambda>x. key x = k) (mergesort key xs) = filter (\<lambda>x. key x = k) xs"
proof (induction key xs rule: mergesort.induct)
  case (3 key a b cs)
  let ?xs = "a # b # cs"
  let ?l = "take (length ?xs div 2) ?xs" and ?r = "drop (length ?xs div 2) ?xs"
  have "filter (\<lambda>x. key x = k) (mergesort key ?xs) =
        filter (\<lambda>x. key x = k) (mergesort key ?l) @ filter (\<lambda>x. key x = k) (mergesort key ?r)"
    by (simp add: Let_def filter_merge_by sorted_mergesort
        del: take_Suc_Cons drop_Suc_Cons take_Cons' drop_Cons')
  also have "\<dots> = filter (\<lambda>x. key x = k) ?l @ filter (\<lambda>x. key x = k) ?r"
    using 3 by simp
  also have "\<dots> = filter (\<lambda>x. key x = k) (?l @ ?r)"
    by (simp only: filter_append)
  finally show ?case by (simp only: halves)
qed simp_all

lemma mergesort_sorted_id: "sorted (map key xs) \<Longrightarrow> mergesort key xs = xs"
proof (induction key xs rule: mergesort.induct)
  case (3 key a b cs)
  let ?xs = "a # b # cs"
  let ?l = "take (length ?xs div 2) ?xs" and ?r = "drop (length ?xs div 2) ?xs"
  have s: "sorted (map key (?l @ ?r))"
    using "3.prems" by (simp only: halves)
  then have "sorted (map key ?l)" "sorted (map key ?r)"
    by (simp_all only: map_append sorted_append)
  then have "mergesort key ?l = ?l" "mergesort key ?r = ?r"
    using 3 by simp_all
  then have "mergesort key ?xs = merge_by key ?l ?r"
    by (simp add: Let_def del: take_Suc_Cons drop_Suc_Cons take_Cons' drop_Cons')
  also have "\<dots> = ?l @ ?r"
    using s by (rule merge_by_sorted_append)
  finally show ?case by (simp only: halves)
qed simp_all

section \<open>Lemmas on the steps of the record cleaner\<close>

lemma parse_age_bands_frame:
  assumes "parse_age_bands E h df = (h', res)"
  shows "fresh h' = fresh h" and "q \<noteq> df \<Longrightarrow> obj h' q = obj h q"
  using assms
  by (auto simp: parse_age_bands_def mutate_def Let_def split: if_splits sum.splits)

lemma parse_age_bands_age_step:
  assumes "parse_age_bands E h df = (h', res)"
  shows "age_step E (obj h df) = (case res of Inl e \<Rightarrow> Inl e | Inr u \<Rightarrow> Inr (obj h' df))"
  using assms
  by (auto simp: parse_age_bands_def age_step_def mutate_def Let_def split: if_splits sum.splits)

text \<open>The state in which line 125 is reached.\<close>

lemma derive_columns_unfold:
  "\<exists>H D. fresh h \<le> D \<and> D < fresh H \<and> (\<forall>q<fresh h. obj H q = obj h q) \<and>
     obj H D = before_ages E (obj h p) \<and>
     derive_columns E h p =
       (case parse_age_bands E H D of
          (h1, Inl e) \<Rightarrow> (h1, Inl e)
        | (h1, Inr u) \<Rightarrow>
            if \<not> has_col (obj h1 D) (lit ''Deaths'') then (h1, Inl (KeyError (lit ''Deaths'')))
            else if \<not> has_col (obj h1 D) (lit ''Population'')
              then (h1, Inl (KeyError (lit ''Population'')))
            else (let h2 = mutate h1 D (crude_calculated E);
                      h3 = (if copy_on_write E then h2 else mutate h2 D replace_inf)
                  in (h3, Inr D)))"
proof (cases "has_col (convert_numeric E (flag_unreliable E (drop_redundant (obj h p))))
    (lit ''Crude Rate'')")
  case True
  let ?h1 = "\<lparr>obj = (obj h)(fresh h := obj h p), fresh = Suc (fresh h)\<rparr>"
  let ?h2 = "\<lparr>obj = (obj ?h1)(Suc (fresh h) :=
      crude_reported E (convert_numeric E (flag_unreliable E (drop_redundant (obj h p))))),
      fresh = Suc (Suc (fresh h))\<rparr>"
  let ?H = "\<lparr>obj = (obj ?h2)(Suc (Suc (fresh h)) := before_ages E (obj h p)),
      fresh = Suc (Suc (Suc (fresh h)))\<rparr>"
  show ?thesis
    using True
    by (intro exI [of _ ?H] exI [of _ "Suc (Suc (fresh h))"])
      (simp add: derive_columns_def new_obj_def mutate_def Let_def before_ages_def crude_step_def)
next
  case False
  let ?h1 = "\<lparr>obj = (obj h)(fresh h := obj h p), fresh = Suc (fresh h)\<rparr>"
  let ?H = "\<lparr>obj = (obj ?h1)(Suc (fresh h) := before_ages E (obj h p)),
      fresh = Suc (Suc (fresh h))\<rparr>"
  show ?thesis
    using False
    by (intro exI [of _ ?H] exI [of _ "Suc (fresh h)"])
      (simp add: derive_columns_def new_obj_def mutate_def Let_def before_ages_def crude_step_def)
qed

lemma derive_columns_frame:
  assumes "derive_columns E h p = (h', res)" "q < fresh h"
  shows "obj h' q = obj h q"
proof -
  obtain H D where *: "fresh h \<le> D" "\<forall>q<fresh h. obj H q = obj h q"
    and d: "derive_columns E h p =
       (case parse_age_bands E H D of
          (h1, Inl e) \<Rightarrow> (h1, Inl e)
        | (h1, Inr u) \<Rightarrow>
            if \<not> has_col (obj h1 D) (lit ''Deaths'') then (h1, Inl (KeyError (lit ''Deaths'')))
            else if \<not> has_col (obj h1 D) (lit ''Population'')
              then (h1, Inl (KeyError (lit ''Population'')))
            else (let h2 = mutate h1 D (crude_calculated E);
                      h3 = (if copy_on_write E then h2 else mutate h2 D replace_inf)
                  in (h3, Inr D)))"
    using derive_columns_unfold [of h E p] by blast
  obtain h1 r1 where a: "parse_age_bands E H D = (h1, r1)"
    by (cases "parse_age_bands E H D")
  have "obj h1 q = obj h q"
    using parse_age_bands_frame(2) [OF a, of q] * assms(2) by simp
  moreover have "obj h' q = obj h1 q"
    using assms d a * by (auto simp: mutate_def Let_def split: sum.splits if_splits)
  ultimately show ?thesis by simp
qed

lemma derive_columns_fresh:
  assumes "derive_columns E h p = (h', res)"
  shows "fresh h \<le> fresh h'"
proof -
  obtain H D where *: "fresh h \<le> D" "D < fresh H"
    and d: "derive_columns E h p =
       (case parse_age_bands E H D of
          (h1, Inl e) \<Rightarrow> (h1, Inl e)
        | (h1, Inr u) \<Rightarrow>
            if \<not> has_col (obj h1 D) (lit ''Deaths'') then (h1, Inl (KeyError (lit ''Deaths'')))
            else if \<not> has_col (obj h1 D) (lit ''Population'')
              then (h1, Inl (KeyError (lit ''Population'')))
            else (let h2 = mutate h1 D (crude_calculated E);
                      h3 = (if copy_on_write E then h2 else mutate h2 D replace_inf)
                  in (h3, Inr D)))"
    using derive_columns_unfold [of h E p] by blast
  obtain h1 r1 where a: "parse_age_bands E H D = (h1, r1)"
    by (cases "parse_age_bands E H D")
  have "fresh h' = fresh h1"
    using assms d a by (auto simp: mutate_def Let_def split: sum.splits if_splits)
  with parse_age_bands_frame(1) [OF a] * show ?thesis by simp
qed

lemma derive_columns_cases:
  assumes "derive_columns E h p = (h', res)"
  shows "case age_step E (before_ages E (obj h p)) of
           Inl e \<Rightarrow> res = Inl e
         | Inr b \<Rightarrow>
             if \<not> has_col b (lit ''Deaths'') then res = Inl (KeyError (lit ''Deaths''))
             else if \<not> has_col b (lit ''Population'') then res = Inl (KeyError (lit ''Population''))
             else \<exists>d. res = Inr d \<and> fresh h \<le> d \<and> d < fresh h' \<and> obj h' d = rate_step E b"
proof -
  obtain H D where *: "fresh h \<le> D" "D < fresh H" "obj H D = before_ages E (obj h p)"
    and d: "derive_columns E h p =
       (case parse_age_bands E H D of
          (h1, Inl e) \<Rightarrow> (h1, Inl e)
        | (h1, Inr u) \<Rightarrow>
            if \<not> has_col (obj h1 D) (lit ''Deaths'') then (h1, Inl (KeyError (lit ''Deaths'')))
            else if \<not> has_col (obj h1 D) (lit ''Population'')
              then (h1, Inl (KeyError (lit ''Population'')))
            else (let h2 = mutate h1 D (crude_calculated E);
                      h3 = (if copy_on_write E then h2 else mutate h2 D replace_inf)
                  in (h3, Inr D)))"
    using derive_columns_unfold [of h E p] by blast
  obtain h1 r1 where a: "parse_age_bands E H D = (h1, r1)"
    by (cases "parse_age_bands E H D")
  note s = parse_age_bands_age_step [OF a, unfolded *(3)]
  note f = parse_age_bands_frame(1) [OF a]
  show ?thesis
  proof (cases r1)
    case (Inl e)
    with assms d a s show ?thesis by simp
  next
    case (Inr u)
    with assms d a s f * show ?thesis
      by (auto simp: mutate_def Let_def rate_step_def split: if_splits)
  qed
qed

lemma derive_columns_result:
  assumes "derive_columns E h p = (h', Inr d)"
  shows "\<exists>b. age_step E (before_ages E (obj h p)) = Inr b \<and>
             has_col b (lit ''Deaths'') \<and> has_col b (lit ''Population'') \<and>
             fresh h \<le> d \<and> d < fresh h' \<and> obj h' d = rate_step E b"
  using derive_columns_cases [OF assms]
  by (auto split: sum.splits if_splits)

lemma derive_columns_total:
  assumes "age_step E (before_ages E (obj h p)) = Inr b"
    "has_col b (lit ''Deaths'')" "has_col b (lit ''Population'')"
  shows "\<exists>h' d. derive_columns E h p = (h', Inr d)"
proof -
  obtain h' res where r: "derive_columns E h p = (h', res)"
    by (cases "derive_columns E h p")
  from derive_columns_cases [OF r] assms r show ?thesis
    by auto
qed

lemma agree_off_cell: "agree_off S r r' \<Longrightarrow> c \<notin> S \<Longrightarrow> cell_of r' c = cell_of r c"
  by (simp add: agree_off_def cell_of_def)

lemma agree_off_trans:
  "list_all2 (agree_off S) xs ys \<Longrightarrow> list_all2 (agree_off T) ys zs \<Longrightarrow>
   list_all2 (agree_off (S \<union> T)) xs zs"
  by (rule list_all2_trans [where ?P1.0 = "agree_off S" and ?P2.0 = "agree_off T"])
    (auto simp: agree_off_def)

lemma agree_off_mono:
  "list_all2 (agree_off S) xs ys \<Longrightarrow> S \<subseteq> T \<Longrightarrow> list_all2 (agree_off T) xs ys"
  by (erule list_all2_mono) (auto simp: agree_off_def)

lemma has_col_set_col [simp]: "has_col (set_col c f df) c' \<longleftrightarrow> c' = c \<or> has_col df c'"
  by (auto simp: has_col_def set_col_def)

lemma rows_set_col [simp]: "rows (set_col c f df) = map (\<lambda>r. r(c \<mapsto> f r)) (rows df)"
  by (simp add: set_col_def)

lemma has_col_drop_cols [simp]: "has_col (drop_cols cs df) c \<longleftrightarrow> has_col df c \<and> c \<notin> set cs"
  by (auto simp: has_col_def drop_cols_def)

lemma rows_drop_cols [simp]: "rows (drop_cols cs df) = map (\<lambda>r. r |` (- set cs)) (rows df)"
  by (simp add: drop_cols_def)

lemma drop_cols_agree: "list_all2 (agree_off (set cs)) (rows df) (rows (drop_cols cs df))"
  by (simp add: list_all2_map2 list_all2_refl agree_off_def)

text \<open>Step 1\<close>

lemma drop_redundant_has_col:
  "c \<notin> set redundant_cols \<Longrightarrow> has_col (drop_redundant df) c = has_col df c"
  by (auto simp: drop_redundant_def)

lemma drop_redundant_agree:
  "list_all2 (agree_off (set redundant_cols)) (rows df) (rows (drop_redundant df))"
  unfolding drop_redundant_def
  by (rule agree_off_mono [OF drop_cols_agree]) auto

text \<open>Step 2\<close>

lemma flag_unreliable_has_col:
  "has_col (flag_unreliable E df) c \<longleftrightarrow> c = lit ''Unreliable_Flag'' \<or> has_col df c"
  by (simp add: flag_unreliable_def)

lemma flag_unreliable_agree:
  "list_all2 (agree_off {lit ''Unreliable_Flag''}) (rows df) (rows (flag_unreliable E df))"
  by (simp add: flag_unreliable_def list_all2_map2 list_all2_refl agree_off_def)

lemma flag_unreliable_value:
  "list_all2 (\<lambda>r r'. r' (lit ''Unreliable_Flag'') =
       Some (Num (Fin (if has_col df (lit ''Crude Rate'') \<and>
                          py_str E (cell_of r (lit ''Crude Rate'')) = lit ''Unreliable''
                       then 1 else 0))))
     (rows df) (rows (flag_unreliable E df))"
  by (simp add: flag_unreliable_def list_all2_map2 list_all2_refl)

text \<open>Step 3\<close>

lemma convert_numeric_has_col: "has_col (convert_numeric E df) c = has_col df c"
  by (auto simp: convert_numeric_def)

lemma convert_numeric_agree:
  "list_all2 (agree_off {lit ''Year'', lit ''Deaths'', lit ''Population''})
     (rows df) (rows (convert_numeric E df))"
  by (simp add: convert_numeric_def list_all2_map2 list_all2_refl agree_off_def)

lemma convert_numeric_value:
  assumes "has_col df c" "c = lit ''Deaths'' \<or> c = lit ''Population''"
  shows "list_all2 (\<lambda>r r'. r' c = Some (Num (to_numeric E (cell_of r c))))
           (rows df) (rows (convert_numeric E df))"
  using assms by (auto simp: convert_numeric_def list_all2_map2 list_all2_refl cell_of_def)

text \<open>Steps 4 to 6\<close>

lemma crude_step_has_col:
  "c \<noteq> lit ''Crude Rate'' \<Longrightarrow> c \<noteq> lit ''CrudeRate_Reported'' \<Longrightarrow>
   has_col (crude_step E df) c = has_col df c"
  by (simp add: crude_step_def crude_reported_def crude_missing_def)

lemma crude_step_agree:
  "list_all2 (agree_off {lit ''Crude Rate'', lit ''CrudeRate_Reported''})
     (rows df) (rows (crude_step E df))"
  by (simp add: crude_step_def crude_reported_def crude_missing_def list_all2_map2 list_all2_refl
      agree_off_def)

lemma clean_sex_has_col: "has_col (clean_sex df) c = has_col df c"
  by (auto simp: clean_sex_def)

lemma clean_sex_agree: "list_all2 (agree_off {lit ''Sex''}) (rows df) (rows (clean_sex df))"
  by (simp add: clean_sex_def list_all2_map2 list_all2_refl agree_off_def)

lemma age_step_has_col:
  assumes "age_step E d = Inr b" "c \<notin> {lit ''Age_Min'', lit ''Age_Max'', lit ''Age_Mid''}"
  shows "has_col b c = has_col d c"
  using assms by (auto simp: age_step_def age_mid_def split: if_splits sum.splits)

lemma age_step_agree:
  assumes "age_step E d = Inr b"
  shows "list_all2 (agree_off {lit ''Age_Min'', lit ''Age_Max'', lit ''Age_Mid''}) (rows d) (rows b)"
  using assms
  by (auto simp: age_step_def age_mid_def list_all2_map2 list_all2_refl agree_off_def
      split: if_splits sum.splits)

lemma age_step_no_labels:
  "\<not> has_col d (lit ''Ten-Year Age Groups'') \<Longrightarrow> age_step E d = Inr d"
  by (simp add: age_step_def)

lemma before_ages_has_col:
  assumes "c \<notin> set redundant_cols"
    "c \<notin> {lit ''Unreliable_Flag'', lit ''Crude Rate'', lit ''CrudeRate_Reported''}"
  shows "has_col (before_ages E df) c = has_col df c"
  using assms
  by (simp add: before_ages_def clean_sex_has_col crude_step_has_col convert_numeric_has_col
      flag_unreliable_has_col drop_redundant_has_col)

lemma late_steps_agree:
  assumes "age_step E (clean_sex (crude_step E d)) = Inr b"
  shows "list_all2 (agree_off late_cols) (rows d) (rows b)"
proof -
  have "list_all2 (agree_off ({lit ''Crude Rate'', lit ''CrudeRate_Reported''} \<union> {lit ''Sex''}
          \<union> {lit ''Age_Min'', lit ''Age_Max'', lit ''Age_Mid''})) (rows d) (rows b)"
    by (rule agree_off_trans [OF agree_off_trans [OF crude_step_agree clean_sex_agree]
          age_step_agree [OF assms]])
  then show ?thesis
    by (rule agree_off_mono) (simp add: late_cols_def)
qed

lemma aged_has_col:
  assumes "age_step E (before_ages E df) = Inr b"
    "c = lit ''Deaths'' \<or> c = lit ''Population''"
  shows "has_col b c = has_col df c"
proof -
  have "has_col b c = has_col (before_ages E df) c"
    using assms by (intro age_step_has_col [OF assms(1)]) auto
  also have "\<dots> = has_col df c"
    using assms(2) by (intro before_ages_has_col) (auto simp: redundant_cols_def)
  finally show ?thesis .
qed

lemma aged_value:
  assumes b: "age_step E (before_ages E df) = Inr b"
    and "has_col df c" "c = lit ''Deaths'' \<or> c = lit ''Population''"
  shows "list_all2 (\<lambda>r r'. r' c = Some (Num (to_numeric E (cell_of r c)))) (rows df) (rows b)"
proof -
  let ?s1 = "drop_redundant df"
  let ?s2 = "flag_unreliable E ?s1"
  let ?s3 = "convert_numeric E ?s2"
  have c: "c \<notin> set redundant_cols" "c \<notin> {lit ''Unreliable_Flag''}" "c \<notin> late_cols"
    using assms(3) by (auto simp: redundant_cols_def late_cols_def)
  have "has_col ?s2 c"
    using assms c by (simp add: flag_unreliable_has_col drop_redundant_has_col)
  then have 3: "list_all2 (\<lambda>r r'. r' c = Some (Num (to_numeric E (cell_of r c))))
      (rows ?s2) (rows ?s3)"
    using assms(3) by (rule convert_numeric_value)
  have "list_all2 (agree_off (set redundant_cols \<union> {lit ''Unreliable_Flag''})) (rows df) (rows ?s2)"
    by (rule agree_off_trans [OF drop_redundant_agree flag_unreliable_agree])
  then have "list_all2 (\<lambda>r r'. r' c = Some (Num (to_numeric E (cell_of r c)))) (rows df) (rows ?s3)"
    using 3
    by (rule list_all2_trans [rotated]) (use c in \<open>auto simp: agree_off_def cell_of_def\<close>)
  then show ?thesis
    using late_steps_agree [OF b [unfolded before_ages_def]]
    by (rule list_all2_trans [rotated]) (use c in \<open>auto simp: agree_off_def\<close>)
qed

lemma aged_flag:
  assumes b: "age_step E (before_ages E df) = Inr b"
  shows "list_all2 (\<lambda>r r'. r' (lit ''Unreliable_Flag'') =
       Some (Num (Fin (if has_col df (lit ''Crude Rate'') \<and>
                          py_str E (cell_of r (lit ''Crude Rate'')) = lit ''Unreliable''
                       then 1 else 0))))
     (rows df) (rows b)"
proof -
  let ?s1 = "drop_redundant df"
  let ?s2 = "flag_unreliable E ?s1"
  let ?s3 = "convert_numeric E ?s2"
  have 1: "list_all2 (agree_off (set redundant_cols)) (rows df) (rows ?s1)"
    by (rule drop_redundant_agree)
  have 2: "list_all2 (\<lambda>r r'. r' (lit ''Unreliable_Flag'') =
       Some (Num (Fin (if has_col ?s1 (lit ''Crude Rate'') \<and>
                          py_str E (cell_of r (lit ''Crude Rate'')) = lit ''Unreliable''
                       then 1 else 0)))) (rows ?s1) (rows ?s2)"
    by (rule flag_unreliable_value)
  have c: "lit ''Crude Rate'' \<notin> set redundant_cols"
    by (simp add: redundant_cols_def)
  have 12: "list_all2 (\<lambda>r r'. r' (lit ''Unreliable_Flag'') =
       Some (Num (Fin (if has_col df (lit ''Crude Rate'') \<and>
                          py_str E (cell_of r (lit ''Crude Rate'')) = lit ''Unreliable''
                       then 1 else 0)))) (rows df) (rows ?s2)"
    using 1 2
    by (rule list_all2_trans [rotated])
      (use c in \<open>simp add: agree_off_cell drop_redundant_has_col\<close>)
  have "list_all2 (agree_off ({lit ''Year'', lit ''Deaths'', lit ''Population''} \<union> late_cols))
      (rows ?s2) (rows b)"
    by (rule agree_off_trans [OF convert_numeric_agree
          late_steps_agree [OF b [unfolded before_ages_def]]])
  with 12 show ?thesis
    by (rule list_all2_trans [rotated]) (auto simp: agree_off_def late_cols_def)
qed

lemma rate_step_has_col:
  "has_col (rate_step E b) c \<longleftrightarrow> c = lit ''CrudeRate_Calculated'' \<or> has_col b c"
  by (auto simp: rate_step_def replace_inf_def crude_calculated_def)

lemma rate_step_agree:
  "list_all2 (agree_off {lit ''CrudeRate_Calculated''}) (rows b) (rows (rate_step E b))"
  by (simp add: rate_step_def replace_inf_def crude_calculated_def list_all2_map2 list_all2_refl
      agree_off_def)


lemma rated_counts:
  assumes b: "age_step E (before_ages E df) = Inr b"
    and "has_col df (lit ''Deaths'')" "has_col df (lit ''Population'')"
  shows "list_all2 (\<lambda>r r'.
           r' (lit ''Deaths'') = Some (Num (to_numeric E (cell_of r (lit ''Deaths'')))) \<and>
           r' (lit ''Population'') = Some (Num (to_numeric E (cell_of r (lit ''Population'')))))
         (rows df) (rows (rate_step E b))"
proof -
  have "list_all2 (\<lambda>r r'.
           r' (lit ''Deaths'') = Some (Num (to_numeric E (cell_of r (lit ''Deaths'')))) \<and>
           r' (lit ''Population'') = Some (Num (to_numeric E (cell_of r (lit ''Population'')))))
         (rows df) (rows b)"
    using aged_value [OF b assms(2)] aged_value [OF b assms(3)]
    by (simp add: list_all2_conv_all_nth)
  then show ?thesis
    using rate_step_agree
    by (rule list_all2_trans [rotated]) (auto simp: agree_off_def)
qed

lemma rated_flag:
  assumes b: "age_step E (before_ages E df) = Inr b"
  shows "list_all2 (\<lambda>r r'. r' (lit ''Unreliable_Flag'') =
       Some (Num (Fin (if has_col df (lit ''Crude Rate'') \<and>
                          py_str E (cell_of r (lit ''Crude Rate'')) = lit ''Unreliable''
                       then 1 else 0))))
     (rows df) (rows (rate_step E b))"
  using aged_flag [OF b] rate_step_agree
  by (rule list_all2_trans [rotated]) (auto simp: agree_off_def)


lemma list_all2_filter:
  assumes "list_all2 R xs ys" "\<And>x y. R x y \<Longrightarrow> P x = Q y"
  shows "list_all2 R (filter P xs) (filter Q ys)"
  using assms by (induction rule: list_all2_induct) auto

lemma sane_iff:
  "sane r \<longleftrightarrow> (\<exists>p d. r (lit ''Population'') = Some (Num p) \<and> gt0 p \<and>
                       r (lit ''Deaths'') = Some (Num d) \<and> ge0 d)"
proof -
  have "gt0 (as_num (cell_of r c)) \<longleftrightarrow> (\<exists>p. r c = Some (Num p) \<and> gt0 p)" for c
    by (cases "r c"; cases "the (r c)") (auto simp: cell_of_def)
  moreover have "ge0 (as_num (cell_of r c)) \<longleftrightarrow> (\<exists>p. r c = Some (Num p) \<and> ge0 p)" for c
    by (cases "r c"; cases "the (r c)") (auto simp: cell_of_def)
  ultimately show ?thesis
    by (auto simp: sane_def)
qed

text \<open>The call as a function of the table passed in.\<close>

lemma clean_mortality_frame:
  "clean_mortality E h p = (h', res) \<Longrightarrow> q < fresh h \<Longrightarrow> obj h' q = obj h q"
proof -
  assume cm: "clean_mortality E h p = (h', res)" and q: "q < fresh h"
  obtain h1 r1 where d: "derive_columns E h p = (h1, r1)"
    by (cases "derive_columns E h p")
  have 1: "obj h1 q = obj h q" and 2: "q < fresh h1"
    using derive_columns_frame [OF d q] derive_columns_fresh [OF d] q by simp_all
  from cm d have "obj h' q = obj h1 q"
    using 2 by (auto simp: clean_mortality_def new_obj_def split: sum.splits if_splits)
  with 1 show ?thesis by simp
qed

lemma returned_derive_columns: "returned (derive_columns E h p) = derived E (obj h p)"
proof (cases "derive_columns E h p")
  case (Pair h' res)
  from derive_columns_cases [OF Pair] Pair show ?thesis
    by (auto simp: returned_def derived_def split: sum.splits if_splits)
qed

lemma derived_Inr:
  assumes "derived E df = Inr t"
  shows "\<exists>b. age_step E (before_ages E df) = Inr b \<and> t = rate_step E b \<and>
             has_col df (lit ''Deaths'') \<and> has_col df (lit ''Population'')"
proof (cases "age_step E (before_ages E df)")
  case (Inl e)
  with assms show ?thesis by (simp add: derived_def)
next
  case (Inr b)
  with assms aged_has_col [OF Inr] show ?thesis
    by (auto simp: derived_def split: if_splits)
qed

lemma derive_columns_derived:
  assumes "derive_columns E h p = (h', Inr d)"
  shows "derived E (obj h p) = Inr (obj h' d)"
  using returned_derive_columns [of E h p] assms by (simp add: returned_def)

lemma derive_columns_total':
  assumes "derived E (obj h p) = Inr t"
  shows "\<exists>h' d. derive_columns E h p = (h', Inr d) \<and> obj h' d = t"
  using returned_derive_columns [of E h p] assms
  by (cases "derive_columns E h p") (auto simp: returned_def split: sum.splits)

lemma clean_mortality_cases:
  assumes "clean_mortality E h p = (h', res)"
  shows "case cleaned E (obj h p) of
           Inl e \<Rightarrow> res = Inl e
         | Inr t \<Rightarrow> \<exists>q. res = Inr q \<and> fresh h \<le> q \<and> q < fresh h' \<and> obj h' q = t"
proof -
  obtain h1 r1 where d: "derive_columns E h p = (h1, r1)"
    by (cases "derive_columns E h p")
  note f = derive_columns_fresh [OF d]
  show ?thesis
  proof (cases "age_step E (before_ages E (obj h p))")
    case (Inl e)
    with derive_columns_cases [OF d] assms d show ?thesis
      by (simp add: cleaned_def derived_def clean_mortality_def)
  next
    case (Inr b)
    with derive_columns_cases [OF d] assms d f show ?thesis
      by (auto simp: cleaned_def derived_def clean_mortality_def new_obj_def rate_step_has_col
          split: if_splits)
  qed
qed

lemma returned_clean_mortality: "returned (clean_mortality E h p) = cleaned E (obj h p)"
proof (cases "clean_mortality E h p")
  case (Pair h' res)
  from clean_mortality_cases [OF Pair] Pair show ?thesis
    by (auto simp: returned_def split: sum.splits)
qed

lemma cleaned_Inr:
  assumes "cleaned E df = Inr t"
  shows "\<exists>b. age_step E (before_ages E df) = Inr b \<and> derived E df = Inr (rate_step E b) \<and>
             t = select_rows sane (rate_step E b) \<and>
             has_col df (lit ''Deaths'') \<and> has_col df (lit ''Population'')"
proof (cases "derived E df")
  case (Inl e)
  with assms show ?thesis by (simp add: cleaned_def)
next
  case (Inr t')
  with assms derived_Inr [OF Inr] show ?thesis
    by (auto simp: cleaned_def)
qed

lemma derived_total:
  assumes "age_step E (before_ages E df) = Inr b"
    "has_col df (lit ''Deaths'')" "has_col df (lit ''Population'')"
  shows "derived E df = Inr (rate_step E b)"
  using assms aged_has_col [OF assms(1)] by (simp add: derived_def)

lemma cleaned_no_deaths:
  assumes "\<not> has_col df (lit ''Ten-Year Age Groups'')" "\<not> has_col df (lit ''Deaths'')"
  shows "cleaned E df = Inl (KeyError (lit ''Deaths''))"
proof -
  have "\<not> has_col (before_ages E df) (lit ''Ten-Year Age Groups'')"
    using assms(1) by (subst before_ages_has_col) (auto simp: redundant_cols_def)
  then have b: "age_step E (before_ages E df) = Inr (before_ages E df)"
    by (rule age_step_no_labels)
  with aged_has_col [OF b, of "lit ''Deaths''"] assms(2) show ?thesis
    by (simp add: cleaned_def derived_def)
qed

lemma clean_mortality_result:
  assumes "clean_mortality E h p = (h', Inr q)"
  shows "\<exists>b. age_step E (before_ages E (obj h p)) = Inr b \<and>
          fresh h \<le> q \<and> q < fresh h' \<and> obj h' q = select_rows sane (rate_step E b) \<and>
          has_col (obj h p) (lit ''Deaths'') \<and> has_col (obj h p) (lit ''Population'')"
proof (cases "cleaned E (obj h p)")
  case (Inl e)
  with clean_mortality_cases [OF assms] show ?thesis by simp
next
  case (Inr t)
  with clean_mortality_cases [OF assms] cleaned_Inr [OF Inr] show ?thesis by auto
qed

lemma clean_mortality_total:
  assumes "cleaned E (obj h p) = Inr t"
  shows "\<exists>h' q. clean_mortality E h p = (h', Inr q) \<and> obj h' q = t"
proof (cases "clean_mortality E h p")
  case (Pair h' res)
  from clean_mortality_cases [OF Pair] assms Pair show ?thesis by auto
qed

lemma has_col_select_rows [simp]: "has_col (select_rows P df) c = has_col df c"
  by (simp add: has_col_def select_rows_def)

lemma rows_select_rows [simp]: "rows (select_rows P df) = filter P (rows df)"
  by (simp add: select_rows_def)

lemma has_col_concat2: "has_col (concat2 a b) c \<longleftrightarrow> has_col a c \<or> has_col b c"
  by (auto simp: has_col_def concat2_def Let_def)

lemma rows_concat2:
  "rows (concat2 a b) =
     map (reindex (columns (concat2 a b))) (rows a) @ map (reindex (columns (concat2 a b))) (rows b)"
  by (simp add: concat2_def Let_def)

lemma reindex_apply: "has_col df c \<Longrightarrow> reindex (columns df) r c = Some (cell_of r c)"
  by (simp add: reindex_def has_col_def)

lemma sort_values_Inr:
  assumes "sort_values ks df = Inr out"
  shows "out = \<lparr>columns = columns df, rows = mergesort (sort_key ks) (rows df)\<rparr>"
    and "\<forall>c\<in>set ks. has_col df c"
  using assms
  by (auto simp: sort_values_def filter_empty_conv split: list.splits)

lemma sort_values_total:
  assumes "\<forall>c\<in>set ks. has_col df c"
  shows "sort_values ks df = Inr \<lparr>columns = columns df, rows = mergesort (sort_key ks) (rows df)\<rparr>"
proof -
  have "filter (\<lambda>c. \<not> has_col df c) ks = []"
    using assms by (simp add: filter_empty_conv)
  then show ?thesis
    by (simp add: sort_values_def)
qed

lemma sort_values_again:
  assumes "sort_values ks df = Inr out"
  shows "sort_values ks out = Inr out"
proof -
  note s = sort_values_Inr [OF assms]
  have cols: "\<forall>c\<in>set ks. has_col out c"
    using s by (simp add: has_col_def)
  have "mergesort (sort_key ks) (rows out) = rows out"
    using s(1) by (intro mergesort_sorted_id) (simp add: sorted_mergesort)
  with sort_values_total [OF cols] s(1) show ?thesis
    by simp
qed

lemma main_Inr:
  assumes "main E csv1 csv2 = Inr out"
  obtains c1 c2 where "sort_values sort_cols (concat2 c1 c2) = Inr out"
    and "\<forall>r\<in>set (rows c1) \<union> set (rows c2). sane r"
    and "\<forall>c\<in>{lit ''Population'', lit ''Deaths''}. has_col c1 c \<and> has_col c2 c"
proof -
  obtain h d1 d2 where l: "load_raw empty_heap csv1 csv2 = (h, d1, d2)"
    by (cases "load_raw empty_heap csv1 csv2") auto
  obtain h1 r1 where a: "clean_mortality E h d1 = (h1, r1)"
    by (cases "clean_mortality E h d1")
  with assms l obtain q1 where r1: "r1 = Inr q1"
    by (cases r1) (auto simp: main_def)
  obtain h2 r2 where b: "clean_mortality E h1 d2 = (h2, r2)"
    by (cases "clean_mortality E h1 d2")
  with assms l a r1 obtain q2 where r2: "r2 = Inr q2"
    by (cases r2) (auto simp: main_def)
  have out: "sort_values sort_cols (concat2 (obj h2 q1) (obj h2 q2)) = Inr out"
    using assms l a b r1 r2 by (simp add: main_def)
  note A = clean_mortality_result [OF a [unfolded r1]]
  note B = clean_mortality_result [OF b [unfolded r2]]
  have same: "obj h2 q1 = obj h1 q1"
    using clean_mortality_frame [OF b] A by auto
  obtain b1 where 1: "obj h2 q1 = select_rows sane (rate_step E b1)"
    "has_col b1 (lit ''Population'')" "has_col b1 (lit ''Deaths'')"
    using A same by (auto simp: aged_has_col)
  obtain b2 where 2: "obj h2 q2 = select_rows sane (rate_step E b2)"
    "has_col b2 (lit ''Population'')" "has_col b2 (lit ''Deaths'')"
    using B by (auto simp: aged_has_col)
  show thesis
  proof (rule that [OF out])
    show "\<forall>r\<in>set (rows (obj h2 q1)) \<union> set (rows (obj h2 q2)). sane r"
      by (auto simp: 1 2)
    show "\<forall>c\<in>{lit ''Population'', lit ''Deaths''}. has_col (obj h2 q1) c \<and> has_col (obj h2 q2) c"
      using 1 2 by (auto simp: rate_step_has_col)
  qed
qed

lemma main_rows_sane:
  assumes "main E csv1 csv2 = Inr out" "r \<in> set (rows out)"
  shows "sane r"
proof -
  from assms(1) obtain c1 c2 where s: "sort_values sort_cols (concat2 c1 c2) = Inr out"
    and sane: "\<forall>r\<in>set (rows c1) \<union> set (rows c2). sane r"
    and cols: "\<forall>c\<in>{lit ''Population'', lit ''Deaths''}. has_col c1 c \<and> has_col c2 c"
    by (rule main_Inr)
  let ?m = "concat2 c1 c2"
  have "set (rows out) = set (rows ?m)"
    using sort_values_Inr(1) [OF s] by (simp add: set_mergesort)
  with assms(2) obtain r0 where r0: "r0 \<in> set (rows c1) \<union> set (rows c2)"
    and r: "r = reindex (columns ?m) r0"
    by (auto simp: rows_concat2)
  have "has_col ?m (lit ''Population'')" "has_col ?m (lit ''Deaths'')"
    using cols by (simp_all add: has_col_concat2)
  then have "cell_of r (lit ''Population'') = cell_of r0 (lit ''Population'')"
    "cell_of r (lit ''Deaths'') = cell_of r0 (lit ''Deaths'')"
    unfolding r by (simp_all add: reindex_apply cell_of_def)
  with sane r0 show ?thesis
    by (simp add: sane_def)
qed

lemma has_col_rename_col:
  "has_col (rename_col old new df) c \<longleftrightarrow> (c = new \<and> has_col df old) \<or> (c \<noteq> old \<and> has_col df c)"
  by (auto simp: has_col_def rename_col_def)

lemma load_raw_result:
  assumes "load_raw empty_heap csv1 csv2 = (h, d1, d2)"
  shows "d1 < fresh h \<and> d2 < fresh h \<and>
    obj h d1 = set_col (lit ''Source_File'') (\<lambda>_. Str (lit ''2004-2017'')) csv1 \<and>
    obj h d2 = set_col (lit ''Source_File'') (\<lambda>_. Str (lit ''2018-2023''))
      (if has_col csv2 (lit ''Single Race 6'')
       then rename_col (lit ''Single Race 6'') (lit ''Race'') csv2 else csv2)"
  using assms
  by (auto simp: load_raw_def new_obj_def mutate_def empty_heap_def Let_def split: if_splits)

text \<open>The run as a function of the two tables read.\<close>

lemma main_cleaned:
  "main E csv1 csv2 =
    (case cleaned E (set_col (lit ''Source_File'') (\<lambda>_. Str (lit ''2004-2017'')) csv1) of
       Inl e \<Rightarrow> Inl e
     | Inr c1 \<Rightarrow>
        (case cleaned E (set_col (lit ''Source_File'') (\<lambda>_. Str (lit ''2018-2023''))
                (if has_col csv2 (lit ''Single Race 6'')
                 then rename_col (lit ''Single Race 6'') (lit ''Race'') csv2 else csv2)) of
           Inl e \<Rightarrow> Inl e
         | Inr c2 \<Rightarrow> sort_values sort_cols (concat2 c1 c2)))"
proof -
  obtain h d1 d2 where l: "load_raw empty_heap csv1 csv2 = (h, d1, d2)"
    by (cases "load_raw empty_heap csv1 csv2") auto
  note L = load_raw_result [OF l]
  obtain h1 r1 where a: "clean_mortality E h d1 = (h1, r1)"
    by (cases "clean_mortality E h d1")
  note A = clean_mortality_cases [OF a]
  show ?thesis
  proof (cases "cleaned E (obj h d1)")
    case (Inl e)
    with A L l a show ?thesis by (simp add: main_def)
  next
    case (Inr c1)
    with A obtain q1 where q1: "r1 = Inr q1" "q1 < fresh h1" "obj h1 q1 = c1"
      by auto
    obtain h2 r2 where b: "clean_mortality E h1 d2 = (h2, r2)"
      by (cases "clean_mortality E h1 d2")
    note B = clean_mortality_cases [OF b]
    have d2: "obj h1 d2 = obj h d2"
      using clean_mortality_frame [OF a] L by simp
    have c1: "obj h2 q1 = c1"
      using clean_mortality_frame [OF b q1(2)] q1(3) by simp
    show ?thesis
    proof (cases "cleaned E (obj h d2)")
      case (Inl e)
      with B d2 L l a b q1 Inr show ?thesis by (simp add: main_def)
    next
      case c2: (Inr c2)
      with B d2 obtain q2 where "r2 = Inr q2" "obj h2 q2 = c2"
        by auto
      with c1 c2 Inr L l a b q1 show ?thesis by (simp add: main_def)
    qed
  qed
qed

lemmas frame_ev = cleaned_def before_ages_def age_step_def rate_step_def apply_labels_def
  age_mid_def crude_step_def replace_inf_def crude_calculated_def rate_per_100k_def to_float_def
  fdiv_def fmul_def signed_inf_def signed_zero_def derived_def
  clean_sex_def replace_sex_def crude_reported_def crude_missing_def
  convert_numeric_def flag_unreliable_def drop_redundant_def redundant_cols_def
  set_col_def drop_cols_def select_rows_def rename_col_def has_col_def cell_of_def sane_def
  table_of_def row_of_def cells_def Let_def

lemmas sort_ev = sort_values_def sort_cols_def sort_key_def concat2_def reindex_def

lemma lib0_fields:
  "str_num lib0 = (\<lambda>n. lit ''nan'')"
  "parse_num lib0 = (\<lambda>s. if s = lit ''10.0'' then Fin 10 else NaN)"
  "binary64 lib0 = Fin"
  "copy_on_write lib0 = False"
  "column_of lib0 = (\<lambda>vs. Inr (\<lambda>v. case v of None \<Rightarrow> Num NaN | Some n \<Rightarrow> Num (Fin (of_int n))))"
  "half_sum lib0 = (\<lambda>as bs. Inr (\<lambda>a b. case (a, b) of
                     (Num (Fin x), Num (Fin y)) \<Rightarrow> Num (Fin ((x + y) / 2))
                   | _ \<Rightarrow> Num NaN))"
  by (simp_all add: lib0_def)


lemma store_simps: "fresh (store t) = 1" "obj (store t) 0 = t"
  by (simp_all add: store_def new_obj_def empty_heap_def)

lemma example_cols:
  "has_col table_a (lit ''Deaths'')" "has_col table_a (lit ''Population'')"
  "has_col table_b (lit ''Deaths'')" "has_col table_b (lit ''Population'')"
  "has_col table_inf (lit ''Deaths'')" "has_col table_inf (lit ''Population'')"
  "has_col table_zero (lit ''Deaths'')" "has_col table_zero (lit ''Population'')"
  "\<not> has_col table_no_deaths (lit ''Deaths'')"
  "\<not> has_col table_no_deaths (lit ''Ten-Year Age Groups'')"
  "\<not> has_col table_inf (lit ''Ten-Year Age Groups'')"
  "\<not> has_col table_zero (lit ''Ten-Year Age Groups'')"
  by (simp_all add: has_col_def table_a_def table_b_def table_inf_def table_zero_def
      table_no_deaths_def table_of_def raw_cols_def)

text \<open>Step 6 raises nothing when no label makes a parser raise and the column can be built.\<close>

lemma collect_total: "\<forall>x\<in>set xs. \<exists>v. x = Inr v \<Longrightarrow> \<exists>vs. collect xs = Inr vs"
  by (induction xs) auto

lemma apply_labels_total:
  assumes "\<forall>vs. \<exists>conv. column_of E vs = Inr conv"
    "\<forall>r\<in>set (rows d). \<exists>v. f (cell_of r (lit ''Ten-Year Age Groups'')) = Inr v"
  shows "\<exists>g. apply_labels E f d = Inr g"
proof -
  obtain vs where vs: "collect (map (\<lambda>r. f (cell_of r (lit ''Ten-Year Age Groups''))) (rows d)) = Inr vs"
    using collect_total [of "map (\<lambda>r. f (cell_of r (lit ''Ten-Year Age Groups''))) (rows d)"] assms(2)
    by auto
  obtain conv where "column_of E vs = Inr conv"
    using assms(1) by blast
  with vs show ?thesis
    by (simp add: apply_labels_def)
qed

lemma age_step_total:
  assumes c: "\<forall>vs. \<exists>conv. column_of E vs = Inr conv"
    and l: "\<forall>r\<in>set (rows d). \<exists>v w. parse_age_min E (cell_of r (lit ''Ten-Year Age Groups'')) = Inr v \<and>
                                  parse_age_max E (cell_of r (lit ''Ten-Year Age Groups'')) = Inr w"
    and m: "\<forall>as bs. \<exists>mid. half_sum E as bs = Inr mid"
  shows "\<exists>b. age_step E d = Inr b"
proof -
  obtain amin where 1: "apply_labels E (parse_age_min E) d = Inr amin"
    using apply_labels_total [OF c, of d "parse_age_min E"] l by blast
  have "\<forall>r\<in>set (rows (set_col (lit ''Age_Min'') amin d)).
          \<exists>v. parse_age_max E (cell_of r (lit ''Ten-Year Age Groups'')) = Inr v"
    using l by (auto simp: cell_of_def)
  then obtain amax where
    2: "apply_labels E (parse_age_max E) (set_col (lit ''Age_Min'') amin d) = Inr amax"
    using apply_labels_total [OF c] by blast
  have "\<exists>b. age_mid E t = Inr b" for t
  proof -
    obtain mid where "half_sum E (map (\<lambda>r. cell_of r (lit ''Age_Min'')) (rows t))
        (map (\<lambda>r. cell_of r (lit ''Age_Max'')) (rows t)) = Inr mid"
      using m by blast
    then show ?thesis
      by (simp add: age_mid_def)
  qed
  then obtain b where
    "age_mid E (set_col (lit ''Age_Max'') amax (set_col (lit ''Age_Min'') amin d)) = Inr b"
    by blast
  with 1 2 show ?thesis
    by (auto simp: age_step_def)
qed

lemma before_ages_label:
  "list_all2 (\<lambda>r r'. cell_of r' (lit ''Ten-Year Age Groups'') = cell_of r (lit ''Ten-Year Age Groups''))
     (rows df) (rows (before_ages E df))"
proof -
  let ?s2 = "flag_unreliable E (drop_redundant df)"
  let ?s3 = "convert_numeric E ?s2"
  have "list_all2 (agree_off (set redundant_cols \<union> {lit ''Unreliable_Flag''})) (rows df) (rows ?s2)"
    by (rule agree_off_trans [OF drop_redundant_agree flag_unreliable_agree])
  from agree_off_trans [OF this convert_numeric_agree]
  have "list_all2 (agree_off (set redundant_cols \<union> {lit ''Unreliable_Flag''} \<union>
      {lit ''Year'', lit ''Deaths'', lit ''Population''})) (rows df) (rows ?s3)" .
  from agree_off_trans [OF agree_off_trans [OF this crude_step_agree] clean_sex_agree]
  show ?thesis
    unfolding before_ages_def
    by (rule list_all2_mono) (simp add: agree_off_def cell_of_def redundant_cols_def)
qed

lemma derived_total':
  assumes "has_col df (lit ''Deaths'')" "has_col df (lit ''Population'')"
    and c: "\<forall>vs. \<exists>conv. column_of E vs = Inr conv"
    and l: "\<forall>r\<in>set (rows df). \<exists>v w. parse_age_min E (cell_of r (lit ''Ten-Year Age Groups'')) = Inr v \<and>
                                   parse_age_max E (cell_of r (lit ''Ten-Year Age Groups'')) = Inr w"
    and m: "\<forall>as bs. \<exists>mid. half_sum E as bs = Inr mid"
  shows "\<exists>b. age_step E (before_ages E df) = Inr b \<and> derived E df = Inr (rate_step E b) \<and>
             cleaned E df = Inr (select_rows sane (rate_step E b))"
proof -
  have "\<forall>r\<in>set (rows (before_ages E df)).
          \<exists>v w. parse_age_min E (cell_of r (lit ''Ten-Year Age Groups'')) = Inr v \<and>
                parse_age_max E (cell_of r (lit ''Ten-Year Age Groups'')) = Inr w"
  proof
    fix r' assume "r' \<in> set (rows (before_ages E df))"
    then obtain i where i: "i < length (rows (before_ages E df))" "r' = rows (before_ages E df) ! i"
      by (auto simp: in_set_conv_nth)
    have len: "length (rows df) = length (rows (before_ages E df))"
      by (rule list_all2_lengthD [OF before_ages_label])
    have "cell_of r' (lit ''Ten-Year Age Groups'') = cell_of (rows df ! i) (lit ''Ten-Year Age Groups'')"
      using list_all2_nthD [OF before_ages_label, of i df E] i len by simp
    moreover have "rows df ! i \<in> set (rows df)"
      using i len by simp
    ultimately show "\<exists>v w. parse_age_min E (cell_of r' (lit ''Ten-Year Age Groups'')) = Inr v \<and>
                parse_age_max E (cell_of r' (lit ''Ten-Year Age Groups'')) = Inr w"
      using l by simp
  qed
  then obtain b where b: "age_step E (before_ages E df) = Inr b"
    using age_step_total [OF c _ m] by blast
  with derived_total [OF b assms(1,2)] show ?thesis
    by (simp add: cleaned_def)
qed





text \<open>The parsers do not use the conversion of text to numbers.\<close>

lemma parse_age_parse_num:
  "parse_age_min (E\<lparr>parse_num := g\<rparr>) = parse_age_min E"
  "parse_age_max (E\<lparr>parse_num := g\<rparr>) = parse_age_max E"
proof -
  have d: "is_digit (E\<lparr>parse_num := g\<rparr>) = is_digit E"
    by (rule ext) (simp add: is_digit_def)
  have v: "digit_value (E\<lparr>parse_num := g\<rparr>) = digit_value E"
    by (rule ext) (simp add: digit_value_def)
  have i: "py_int (E\<lparr>parse_num := g\<rparr>) = py_int E"
    by (rule ext) (simp add: py_int_def v)
  have l: "lower (E\<lparr>parse_num := g\<rparr>) = lower E"
    by (rule ext) (simp add: lower_def)
  have s: "py_str (E\<lparr>parse_num := g\<rparr>) c = py_str E c" for c
    by (cases c) simp_all
  have r: "re_plus (E\<lparr>parse_num := g\<rparr>) = re_plus E"
    "re_range (E\<lparr>parse_num := g\<rparr>) = re_range E"
    "re_num (E\<lparr>parse_num := g\<rparr>) = re_num E"
    by (simp_all add: re_plus_def re_range_def re_num_def digits1_def [abs_def] d)
  show "parse_age_min (E\<lparr>parse_num := g\<rparr>) = parse_age_min E"
    by (rule ext) (unfold parse_age_min_def i l s r, rule refl)
  show "parse_age_max (E\<lparr>parse_num := g\<rparr>) = parse_age_max E"
    by (rule ext) (unfold parse_age_max_def i l s r, rule refl)
qed

text \<open>The labels of the example tables.\<close>

lemma example_labels:
  "parse_age_min lib0 (Str (lit ''45-54 years'')) = Inr (Some 45)"
  "parse_age_max lib0 (Str (lit ''45-54 years'')) = Inr (Some 54)"
  "parse_age_min lib0 (Str (lit ''85+ years'')) = Inr (Some 85)"
  "parse_age_max lib0 (Str (lit ''85+ years'')) = Inr (Some 94)"
  by (simp_all add: parse_ev lib0_def)

lemma example_total:
  "\<forall>vs. \<exists>conv. column_of lib0 vs = Inr conv"
  "\<forall>r\<in>set (rows table_a). \<exists>v w. parse_age_min lib0 (cell_of r (lit ''Ten-Year Age Groups'')) = Inr v \<and>
                                   parse_age_max lib0 (cell_of r (lit ''Ten-Year Age Groups'')) = Inr w"
  "\<forall>r\<in>set (rows table_b). \<exists>v w. parse_age_min lib0 (cell_of r (lit ''Ten-Year Age Groups'')) = Inr v \<and>
                                   parse_age_max lib0 (cell_of r (lit ''Ten-Year Age Groups'')) = Inr w"
  "\<forall>as bs. \<exists>mid. half_sum lib0 as bs = Inr mid"
  by (simp_all add: table_a_def table_b_def table_of_def row_of_def raw_cols_def cell_of_def
      example_labels) (simp_all add: lib0_def)

lemma main_example:
  "cells [''State'', ''Deaths'', ''Population'', ''Unreliable_Flag''] (main lib0 table_a table_b) =
   Inr [[Some (Str (lit ''AL'')), Some (Num (Fin 3)), Some (Num (Fin 64)), Some (Num (Fin 1))],
        [Some (Str (lit ''CA'')), Some (Num (Fin 10)), Some (Num (Fin 100000)), Some (Num (Fin 0))]]"
  apply (simp add: main_cleaned)
  apply (simp add: frame_ev sort_ev lib0_fields table_a_def table_b_def raw_cols_def
      example_labels)
  apply (simp add: lit_def)
  done

lemma main_example_Inr: "\<exists>out. main lib0 table_a table_b = Inr out \<and> length (rows out) = 2"
proof (cases "main lib0 table_a table_b")
  case (Inl e)
  with main_example show ?thesis by (simp add: cells_def)
next
  case (Inr out)
  with main_example
  have "length (map (\<lambda>r. map (\<lambda>c. r (lit c)) [''State'', ''Deaths'', ''Population'',
          ''Unreliable_Flag'']) (rows out)) = 2"
    by (simp add: cells_def)
  with Inr show ?thesis by simp
qed

section \<open>The claims on the tables\<close>

text \<open>
  C1. Every row of the table that \<open>main\<close> writes has a population above 0 and a count of
  deaths of at least 0, and so has every row that \<open>clean_mortality\<close> returns. The rows
  returned are, in order, those rows of the table passed in whose population, read as a
  number, is above 0 and whose deaths, read as a number, are at least 0: a row where either is
  missing or fails its comparison has no counterpart in the result.
\<close>

theorem sanity_filter_invariant:
  "(main E csv1 csv2 = Inr out \<longrightarrow>
      (\<forall>r\<in>set (rows out). \<exists>p d. r (lit ''Population'') = Some (Num p) \<and> gt0 p \<and>
                                r (lit ''Deaths'') = Some (Num d) \<and> ge0 d)) \<and>
   (clean_mortality E h df = (h', Inr q) \<longrightarrow>
      (\<forall>r\<in>set (rows (obj h' q)). \<exists>p d. r (lit ''Population'') = Some (Num p) \<and> gt0 p \<and>
                                      r (lit ''Deaths'') = Some (Num d) \<and> ge0 d) \<and>
      list_all2
        (\<lambda>r r'. r' (lit ''Population'') = Some (Num (to_numeric E (cell_of r (lit ''Population'')))) \<and>
                 r' (lit ''Deaths'') = Some (Num (to_numeric E (cell_of r (lit ''Deaths'')))))
        (filter (\<lambda>r. gt0 (to_numeric E (cell_of r (lit ''Population''))) \<and>
                      ge0 (to_numeric E (cell_of r (lit ''Deaths'')))) (rows (obj h df)))
        (rows (obj h' q)))"
proof (intro conjI impI)
  assume "main E csv1 csv2 = Inr out"
  then show "\<forall>r\<in>set (rows out). \<exists>p d. r (lit ''Population'') = Some (Num p) \<and> gt0 p \<and>
                                r (lit ''Deaths'') = Some (Num d) \<and> ge0 d"
    by (auto dest: main_rows_sane simp: sane_iff)
next
  assume c: "clean_mortality E h df = (h', Inr q)"
  from clean_mortality_result [OF c] obtain b
    where b: "age_step E (before_ages E (obj h df)) = Inr b"
      and rows: "rows (obj h' q) = filter sane (rows (rate_step E b))"
      and cols: "has_col (obj h df) (lit ''Deaths'')" "has_col (obj h df) (lit ''Population'')"
    by auto
  from rows show "\<forall>r\<in>set (rows (obj h' q)). \<exists>p d. r (lit ''Population'') = Some (Num p) \<and> gt0 p \<and>
                                      r (lit ''Deaths'') = Some (Num d) \<and> ge0 d"
    by (auto simp: sane_iff)
  have "list_all2
        (\<lambda>r r'. r' (lit ''Deaths'') = Some (Num (to_numeric E (cell_of r (lit ''Deaths'')))) \<and>
                 r' (lit ''Population'') = Some (Num (to_numeric E (cell_of r (lit ''Population'')))))
        (rows (obj h df)) (rows (rate_step E b))"
    using b cols by (rule rated_counts)
  then have "list_all2
        (\<lambda>r r'. r' (lit ''Population'') = Some (Num (to_numeric E (cell_of r (lit ''Population'')))) \<and>
                 r' (lit ''Deaths'') = Some (Num (to_numeric E (cell_of r (lit ''Deaths'')))))
        (rows (obj h df)) (rows (rate_step E b))"
    by (rule list_all2_mono) simp
  then show "list_all2
        (\<lambda>r r'. r' (lit ''Population'') = Some (Num (to_numeric E (cell_of r (lit ''Population'')))) \<and>
                 r' (lit ''Deaths'') = Some (Num (to_numeric E (cell_of r (lit ''Deaths'')))))
        (filter (\<lambda>r. gt0 (to_numeric E (cell_of r (lit ''Population''))) \<and>
                      ge0 (to_numeric E (cell_of r (lit ''Deaths'')))) (rows (obj h df)))
        (rows (obj h' q))"
    unfolding rows by (rule list_all2_filter) (auto simp: sane_iff)
qed

theorem sanity_filter_invariant_witness:
  "(\<exists>out. main lib0 table_a table_b = Inr out \<and> length (rows out) = 2 \<and>
      (\<forall>r\<in>set (rows out). \<exists>p d. r (lit ''Population'') = Some (Num p) \<and> gt0 p \<and>
                                r (lit ''Deaths'') = Some (Num d) \<and> ge0 d)) \<and>
   (\<exists>h' q. clean_mortality lib0 (store table_b) 0 = (h', Inr q) \<and>
      length (rows table_b) = 2 \<and> length (rows (obj h' q)) = 1 \<and>
      (\<forall>r\<in>set (rows (obj h' q)). \<exists>p d. r (lit ''Population'') = Some (Num p) \<and> gt0 p \<and>
                                      r (lit ''Deaths'') = Some (Num d) \<and> ge0 d))"
proof
  obtain out where m: "main lib0 table_a table_b = Inr out" "length (rows out) = 2"
    using main_example_Inr by blast
  with sanity_filter_invariant [where E = lib0 and ?csv1.0 = table_a and ?csv2.0 = table_b and out = out]
  show "\<exists>out. main lib0 table_a table_b = Inr out \<and> length (rows out) = 2 \<and>
      (\<forall>r\<in>set (rows out). \<exists>p d. r (lit ''Population'') = Some (Num p) \<and> gt0 p \<and>
                                r (lit ''Deaths'') = Some (Num d) \<and> ge0 d)"
    by blast
next
  obtain h' q where c: "clean_mortality lib0 (store table_b) 0 = (h', Inr q)"
    using derived_total' [OF example_cols(3,4) example_total(1,3,4)]
      clean_mortality_total [of lib0 "store table_b" 0]
    by (auto simp: store_simps)
  from sanity_filter_invariant [where E = lib0 and ?csv1.0 = table_a and ?csv2.0 = table_b
      and out = "\<lparr>columns = [], rows = []\<rparr>" and h = "store table_b" and df = 0 and h' = h' and q = q] c
  have S: "\<forall>r\<in>set (rows (obj h' q)). \<exists>p d. r (lit ''Population'') = Some (Num p) \<and> gt0 p \<and>
                                      r (lit ''Deaths'') = Some (Num d) \<and> ge0 d"
    and L: "list_all2
        (\<lambda>r r'. r' (lit ''Population'') = Some (Num (to_numeric lib0 (cell_of r (lit ''Population'')))) \<and>
                 r' (lit ''Deaths'') = Some (Num (to_numeric lib0 (cell_of r (lit ''Deaths'')))))
        (filter (\<lambda>r. gt0 (to_numeric lib0 (cell_of r (lit ''Population''))) \<and>
                      ge0 (to_numeric lib0 (cell_of r (lit ''Deaths'')))) (rows table_b))
        (rows (obj h' q))"
    by (simp_all add: store_simps)
  have n: "length (filter (\<lambda>r. gt0 (to_numeric lib0 (cell_of r (lit ''Population''))) \<and>
                      ge0 (to_numeric lib0 (cell_of r (lit ''Deaths'')))) (rows table_b)) = 1"
    "length (rows table_b) = 2"
    by (simp_all add: table_b_def table_of_def row_of_def raw_cols_def cell_of_def)
  have "length (rows (obj h' q)) = 1"
    using list_all2_lengthD [OF L] n(1) by simp
  with S c n(2)
  show "\<exists>h' q. clean_mortality lib0 (store table_b) 0 = (h', Inr q) \<and>
      length (rows table_b) = 2 \<and> length (rows (obj h' q)) = 1 \<and>
      (\<forall>r\<in>set (rows (obj h' q)). \<exists>p d. r (lit ''Population'') = Some (Num p) \<and> gt0 p \<and>
                                      r (lit ''Deaths'') = Some (Num d) \<and> ge0 d)"
    by blast
qed

text \<open>
  C2. \<open>clean_mortality\<close> raises on a table with no column of deaths: line 131 reads the
  column without the test for its presence that every earlier step makes, and the call ends
  with \<^verbatim>\<open>KeyError: 'Deaths'\<close>.
\<close>

theorem clean_mortality_missing_deaths_raises:
  "snd (clean_mortality lib0 (store table_no_deaths) 0) = Inl (KeyError (lit ''Deaths''))"
  using returned_clean_mortality [of lib0 "store table_no_deaths" 0]
    cleaned_no_deaths [OF example_cols(10,9), of lib0]
  by (cases "clean_mortality lib0 (store table_no_deaths) 0")
    (simp add: store_simps returned_def split: sum.splits)

text \<open>
  C9. A call of \<open>clean_mortality\<close> changes no table that exists when it is made, whether it
  returns or raises; in particular the table passed in is as before. The table it returns is
  a new object.
\<close>

theorem clean_mortality_keeps_argument:
  "df < fresh h \<longrightarrow>
     obj (fst (clean_mortality E h df)) df = obj h df \<and>
     (\<forall>q<fresh h. obj (fst (clean_mortality E h df)) q = obj h q) \<and>
     (\<forall>r. snd (clean_mortality E h df) = Inr r \<longrightarrow> fresh h \<le> r)"
proof (cases "clean_mortality E h df")
  case (Pair h' res)
  then have "\<forall>q<fresh h. obj h' q = obj h q"
    by (blast dest: clean_mortality_frame)
  moreover have "\<forall>r. res = Inr r \<longrightarrow> fresh h \<le> r"
    using Pair by (auto dest: clean_mortality_result)
  ultimately show ?thesis
    using Pair by simp
qed

theorem clean_mortality_keeps_argument_witness:
  "0 < fresh (store table_a) \<and> obj (store table_a) 0 = table_a \<and>
   obj (fst (clean_mortality lib0 (store table_a) 0)) 0 = table_a"
  using clean_mortality_keeps_argument [of 0 "store table_a" lib0]
  by (simp add: store_simps)

text \<open>
  C3. For every row of the table after line 132, and so for every row returned, the flag is
  1 when the table passed in has the column of crude rates and the text of the row's cell in
  it (what \<^verbatim>\<open>astype(str)\<close> gives for the cell as it came in, before any conversion) is
  exactly \<^verbatim>\<open>Unreliable\<close>, and 0 otherwise; in particular it is 0 in every row when the
  column is absent. The flag does not depend on the conversion to numbers: with any other
  conversion routine the flags are the same.
\<close>

theorem unreliable_flag_exact:
  "(derive_columns E h df = (h1, Inr d) \<longrightarrow>
      list_all2
        (\<lambda>r r'. r' (lit ''Unreliable_Flag'') =
           Some (Num (Fin (if has_col (obj h df) (lit ''Crude Rate'') \<and>
                              py_str E (cell_of r (lit ''Crude Rate'')) = lit ''Unreliable''
                           then 1 else 0))))
        (rows (obj h df)) (rows (obj h1 d))) \<and>
   (clean_mortality E h df = (h', Inr q) \<longrightarrow>
      list_all2
        (\<lambda>r r'. r' (lit ''Unreliable_Flag'') =
           Some (Num (Fin (if has_col (obj h df) (lit ''Crude Rate'') \<and>
                              py_str E (cell_of r (lit ''Crude Rate'')) = lit ''Unreliable''
                           then 1 else 0))))
        (filter (\<lambda>r. gt0 (to_numeric E (cell_of r (lit ''Population''))) \<and>
                      ge0 (to_numeric E (cell_of r (lit ''Deaths'')))) (rows (obj h df)))
        (rows (obj h' q))) \<and>
   (derive_columns E h df = (h1, Inr d) \<and>
    derive_columns (E\<lparr>parse_num := g\<rparr>) h df = (h2, Inr d2) \<longrightarrow>
      map (\<lambda>r. r (lit ''Unreliable_Flag'')) (rows (obj h1 d)) =
      map (\<lambda>r. r (lit ''Unreliable_Flag'')) (rows (obj h2 d2)))"
proof (intro conjI impI)
  assume a: "derive_columns E h df = (h1, Inr d)"
  from derived_Inr [OF derive_columns_derived [OF a]] obtain b
    where "age_step E (before_ages E (obj h df)) = Inr b" "obj h1 d = rate_step E b"
    by auto
  then show "list_all2
        (\<lambda>r r'. r' (lit ''Unreliable_Flag'') =
           Some (Num (Fin (if has_col (obj h df) (lit ''Crude Rate'') \<and>
                              py_str E (cell_of r (lit ''Crude Rate'')) = lit ''Unreliable''
                           then 1 else 0))))
        (rows (obj h df)) (rows (obj h1 d))"
    by (simp add: rated_flag)
next
  assume c: "clean_mortality E h df = (h', Inr q)"
  from clean_mortality_result [OF c] obtain b
    where b: "age_step E (before_ages E (obj h df)) = Inr b"
      and rows: "rows (obj h' q) = filter sane (rows (rate_step E b))"
      and cols: "has_col (obj h df) (lit ''Deaths'')" "has_col (obj h df) (lit ''Population'')"
    by auto
  have "list_all2
        (\<lambda>r r'. (r' (lit ''Deaths'') = Some (Num (to_numeric E (cell_of r (lit ''Deaths'')))) \<and>
                  r' (lit ''Population'') = Some (Num (to_numeric E (cell_of r (lit ''Population''))))) \<and>
                 r' (lit ''Unreliable_Flag'') =
           Some (Num (Fin (if has_col (obj h df) (lit ''Crude Rate'') \<and>
                              py_str E (cell_of r (lit ''Crude Rate'')) = lit ''Unreliable''
                           then 1 else 0))))
        (rows (obj h df)) (rows (rate_step E b))"
    using rated_counts [OF b cols] rated_flag [OF b]
    by (simp add: list_all2_conv_all_nth)
  then have "list_all2
        (\<lambda>r r'. (r' (lit ''Deaths'') = Some (Num (to_numeric E (cell_of r (lit ''Deaths'')))) \<and>
                  r' (lit ''Population'') = Some (Num (to_numeric E (cell_of r (lit ''Population''))))) \<and>
                 r' (lit ''Unreliable_Flag'') =
           Some (Num (Fin (if has_col (obj h df) (lit ''Crude Rate'') \<and>
                              py_str E (cell_of r (lit ''Crude Rate'')) = lit ''Unreliable''
                           then 1 else 0))))
        (filter (\<lambda>r. gt0 (to_numeric E (cell_of r (lit ''Population''))) \<and>
                      ge0 (to_numeric E (cell_of r (lit ''Deaths'')))) (rows (obj h df)))
        (filter sane (rows (rate_step E b)))"
    by (rule list_all2_filter) (auto simp: sane_iff)
  then show "list_all2
        (\<lambda>r r'. r' (lit ''Unreliable_Flag'') =
           Some (Num (Fin (if has_col (obj h df) (lit ''Crude Rate'') \<and>
                              py_str E (cell_of r (lit ''Crude Rate'')) = lit ''Unreliable''
                           then 1 else 0))))
        (filter (\<lambda>r. gt0 (to_numeric E (cell_of r (lit ''Population''))) \<and>
                      ge0 (to_numeric E (cell_of r (lit ''Deaths'')))) (rows (obj h df)))
        (rows (obj h' q))"
    unfolding rows by (rule list_all2_mono) simp
next
  assume a: "derive_columns E h df = (h1, Inr d) \<and>
    derive_columns (E\<lparr>parse_num := g\<rparr>) h df = (h2, Inr d2)"
  have s: "py_str (E\<lparr>parse_num := g\<rparr>) c = py_str E c" for c
    by (cases c) simp_all
  from derived_Inr [OF derive_columns_derived [OF conjunct1 [OF a]]] obtain b
    where b: "age_step E (before_ages E (obj h df)) = Inr b" "obj h1 d = rate_step E b"
    by auto
  from derived_Inr [OF derive_columns_derived [OF conjunct2 [OF a]]] obtain b2
    where b2: "age_step (E\<lparr>parse_num := g\<rparr>) (before_ages (E\<lparr>parse_num := g\<rparr>) (obj h df)) = Inr b2"
      "obj h2 d2 = rate_step (E\<lparr>parse_num := g\<rparr>) b2"
    by auto
  have 1: "list_all2
        (\<lambda>r r'. r' (lit ''Unreliable_Flag'') =
           Some (Num (Fin (if has_col (obj h df) (lit ''Crude Rate'') \<and>
                              py_str E (cell_of r (lit ''Crude Rate'')) = lit ''Unreliable''
                           then 1 else 0))))
        (rows (obj h df)) (rows (obj h1 d))"
    using rated_flag [OF b(1)] b(2) by simp
  have 2: "list_all2
        (\<lambda>r r'. r' (lit ''Unreliable_Flag'') =
           Some (Num (Fin (if has_col (obj h df) (lit ''Crude Rate'') \<and>
                              py_str E (cell_of r (lit ''Crude Rate'')) = lit ''Unreliable''
                           then 1 else 0))))
        (rows (obj h df)) (rows (obj h2 d2))"
    using rated_flag [OF b2(1)] b2(2) by (simp add: s)
  show "map (\<lambda>r. r (lit ''Unreliable_Flag'')) (rows (obj h1 d)) =
      map (\<lambda>r. r (lit ''Unreliable_Flag'')) (rows (obj h2 d2))"
    using 1 2 by (auto simp: list_all2_conv_all_nth intro!: nth_equalityI)
qed

theorem unreliable_flag_exact_witness:
  "\<exists>h1 d h2 d2 h' q.
     derive_columns lib0 (store table_b) 0 = (h1, Inr d) \<and>
     derive_columns (lib0\<lparr>parse_num := (\<lambda>s. NaN)\<rparr>) (store table_b) 0 = (h2, Inr d2) \<and>
     clean_mortality lib0 (store table_b) 0 = (h', Inr q) \<and>
     map (\<lambda>r. r (lit ''Unreliable_Flag'')) (rows (obj h1 d)) = [Some (Num (Fin 1)), Some (Num (Fin 1))] \<and>
     map (\<lambda>r. r (lit ''Unreliable_Flag'')) (rows (obj h2 d2)) = [Some (Num (Fin 1)), Some (Num (Fin 1))] \<and>
     map (\<lambda>r. r (lit ''Unreliable_Flag'')) (rows (obj h' q)) = [Some (Num (Fin 1))]"
proof -
  have total: "\<exists>b. age_step E (before_ages E table_b) = Inr b \<and>
      derived E table_b = Inr (rate_step E b) \<and>
      cleaned E table_b = Inr (select_rows sane (rate_step E b))"
    if "\<forall>vs. \<exists>conv. column_of E vs = Inr conv"
      "\<forall>r\<in>set (rows table_b). \<exists>v w.
         parse_age_min E (cell_of r (lit ''Ten-Year Age Groups'')) = Inr v \<and>
         parse_age_max E (cell_of r (lit ''Ten-Year Age Groups'')) = Inr w"
      "\<forall>as bs. \<exists>mid. half_sum E as bs = Inr mid" for E
    using that by (rule derived_total' [OF example_cols(3,4)])
  note p = parse_age_parse_num [of "\<lambda>s. NaN" lib0]
  obtain h1 d where a: "derive_columns lib0 (store table_b) 0 = (h1, Inr d)"
    using total [OF example_total(1,3,4)] derive_columns_total' [of lib0 "store table_b" 0]
    by (auto simp: store_simps)
  obtain h2 d2 where b: "derive_columns (lib0\<lparr>parse_num := (\<lambda>s. NaN)\<rparr>) (store table_b) 0 = (h2, Inr d2)"
    using total [of "lib0\<lparr>parse_num := (\<lambda>s. NaN)\<rparr>"] example_total(1,3,4)
      derive_columns_total' [of "lib0\<lparr>parse_num := (\<lambda>s. NaN)\<rparr>" "store table_b" 0]
    by (auto simp: store_simps p)
  obtain h' q where c: "clean_mortality lib0 (store table_b) 0 = (h', Inr q)"
    using total [OF example_total(1,3,4)] clean_mortality_total [of lib0 "store table_b" 0]
    by (auto simp: store_simps)
  note U = unreliable_flag_exact [where E = lib0 and h = "store table_b" and df = 0 and ?h1.0 = h1
      and d = d and h' = h' and q = q and g = "\<lambda>s. NaN" and ?h2.0 = h2 and ?d2.0 = d2]
  have ev: "has_col table_b (lit ''Crude Rate'')"
    "map (\<lambda>r. py_str lib0 (cell_of r (lit ''Crude Rate'')) = lit ''Unreliable'') (rows table_b) = [True, True]"
    "filter (\<lambda>r. gt0 (to_numeric lib0 (cell_of r (lit ''Population''))) \<and>
                      ge0 (to_numeric lib0 (cell_of r (lit ''Deaths'')))) (rows table_b) = [rows table_b ! 1]"
    "rows table_b = [rows table_b ! 0, rows table_b ! 1]"
    by (simp_all add: has_col_def table_b_def table_of_def row_of_def raw_cols_def cell_of_def)
  have ev1: "py_str lib0 (cell_of (rows table_b ! 0) (lit ''Crude Rate'')) = lit ''Unreliable''"
    "py_str lib0 (cell_of (rows table_b ! 1) (lit ''Crude Rate'')) = lit ''Unreliable''"
    by (simp_all add: table_b_def table_of_def row_of_def raw_cols_def cell_of_def)
  from U a have 1: "list_all2
        (\<lambda>r r'. r' (lit ''Unreliable_Flag'') =
           Some (Num (Fin (if py_str lib0 (cell_of r (lit ''Crude Rate'')) = lit ''Unreliable''
                           then 1 else 0))))
        (rows table_b) (rows (obj h1 d))"
    by (simp add: store_simps ev(1))
  have f1: "map (\<lambda>r. r (lit ''Unreliable_Flag'')) (rows (obj h1 d)) = [Some (Num (Fin 1)), Some (Num (Fin 1))]"
    using 1 ev1 by (subst (asm) ev(4)) (auto simp: list_all2_Cons1)
  from U a b have f2: "map (\<lambda>r. r (lit ''Unreliable_Flag'')) (rows (obj h2 d2)) = [Some (Num (Fin 1)), Some (Num (Fin 1))]"
    using f1 by simp
  from U c have 3: "list_all2
        (\<lambda>r r'. r' (lit ''Unreliable_Flag'') =
           Some (Num (Fin (if py_str lib0 (cell_of r (lit ''Crude Rate'')) = lit ''Unreliable''
                           then 1 else 0))))
        [rows table_b ! 1] (rows (obj h' q))"
    by (simp add: store_simps ev(1,3))
  have f3: "map (\<lambda>r. r (lit ''Unreliable_Flag'')) (rows (obj h' q)) = [Some (Num (Fin 1))]"
    using 3 ev1(2) by (auto simp: list_all2_Cons1)
  show ?thesis
    by (rule exI [of _ h1], rule exI [of _ d], rule exI [of _ h2], rule exI [of _ d2],
        rule exI [of _ h'], rule exI [of _ q])
      (simp only: a b c f1 f2 f3 simp_thms)
qed




text \<open>
  C8. The sort of \<open>sort_values\<close> returns a table whenever the table has the columns of the
  key, whatever their cells are. It orders the rows by the composite key and is stable: for
  every key, the rows with that key come in the order they had before the sort. Sorting the
  result again by the same columns gives the same table; so the table that \<open>main\<close> writes is
  ordered by (State, Year, Age_Min, Sex, Race) and sorting it again leaves it as it is.
\<close>

theorem sort_stable_idempotent:
  "((\<forall>c\<in>set ks. has_col df c) \<longrightarrow> (\<exists>out. sort_values ks df = Inr out)) \<and>
   (sort_values ks df = Inr out \<longrightarrow>
      sorted (map (sort_key ks) (rows out)) \<and>
      (\<forall>k. filter (\<lambda>r. sort_key ks r = k) (rows out) =
           filter (\<lambda>r. sort_key ks r = k) (rows df)) \<and>
      sort_values ks out = Inr out) \<and>
   (main E csv1 csv2 = Inr final \<longrightarrow>
      sorted (map (sort_key sort_cols) (rows final)) \<and>
      sort_values sort_cols final = Inr final)"
proof (intro conjI impI allI)
  assume "\<forall>c\<in>set ks. has_col df c"
  then show "\<exists>out. sort_values ks df = Inr out"
    by (simp add: sort_values_total)
next
  assume s: "sort_values ks df = Inr out"
  note S = sort_values_Inr(1) [OF s]
  show "sorted (map (sort_key ks) (rows out))"
    by (simp add: S sorted_mergesort)
  show "filter (\<lambda>r. sort_key ks r = k) (rows out) = filter (\<lambda>r. sort_key ks r = k) (rows df)" for k
    by (simp add: S filter_mergesort)
  show "sort_values ks out = Inr out"
    using s by (rule sort_values_again)
next
  assume "main E csv1 csv2 = Inr final"
  then obtain c1 c2 where s: "sort_values sort_cols (concat2 c1 c2) = Inr final"
    by (rule main_Inr)
  show "sorted (map (sort_key sort_cols) (rows final))"
    by (simp add: sort_values_Inr(1) [OF s] sorted_mergesort)
  show "sort_values sort_cols final = Inr final"
    using s by (rule sort_values_again)
qed

lemma table_ties_sorted:
  "cells [''State'', ''Deaths''] (sort_values sort_cols table_ties) =
   Inr [[Some (Str (lit ''AL'')), Some (Num (Fin 4))], [Some (Str (lit ''AL'')), Some (Num (Fin 2))],
        [Some (Str (lit ''TX'')), Some (Num (Fin 1))], [Some (Str (lit ''TX'')), Some (Num (Fin 3))]]"
  by code_simp

theorem sort_stable_idempotent_witness:
  "(\<exists>out. sort_values sort_cols table_ties = Inr out \<and>
       cells [''State'', ''Deaths''] (Inr out) =
         Inr [[Some (Str (lit ''AL'')), Some (Num (Fin 4))], [Some (Str (lit ''AL'')), Some (Num (Fin 2))],
              [Some (Str (lit ''TX'')), Some (Num (Fin 1))], [Some (Str (lit ''TX'')), Some (Num (Fin 3))]] \<and>
       sorted (map (sort_key sort_cols) (rows out)) \<and>
       sort_values sort_cols out = Inr out) \<and>
   (\<exists>final. main lib0 table_a table_b = Inr final \<and> sort_values sort_cols final = Inr final)"
proof
  have "\<forall>c\<in>set sort_cols. has_col table_ties c"
    by (simp add: sort_cols_def table_ties_def table_of_def has_col_def)
  with sort_stable_idempotent [where ks = sort_cols and df = table_ties
      and out = "\<lparr>columns = [], rows = []\<rparr>"
      and E = lib0 and ?csv1.0 = table_a and ?csv2.0 = table_b, THEN conjunct1]
  obtain out where o: "sort_values sort_cols table_ties = Inr out"
    by blast
  with sort_stable_idempotent [where ks = sort_cols and df = table_ties and out = out
      and E = lib0 and ?csv1.0 = table_a and ?csv2.0 = table_b]
    table_ties_sorted
  show "\<exists>out. sort_values sort_cols table_ties = Inr out \<and>
       cells [''State'', ''Deaths''] (Inr out) =
         Inr [[Some (Str (lit ''AL'')), Some (Num (Fin 4))], [Some (Str (lit ''AL'')), Some (Num (Fin 2))],
              [Some (Str (lit ''TX'')), Some (Num (Fin 1))], [Some (Str (lit ''TX'')), Some (Num (Fin 3))]] \<and>
       sorted (map (sort_key sort_cols) (rows out)) \<and>
       sort_values sort_cols out = Inr out"
    by simp
next
  obtain final where m: "main lib0 table_a table_b = Inr final"
    using main_example_Inr by blast
  with sort_stable_idempotent [where E = lib0 and ?csv1.0 = table_a and ?csv2.0 = table_b
      and final = final]
  show "\<exists>final. main lib0 table_a table_b = Inr final \<and> sort_values sort_cols final = Inr final"
    by blast
qed

end
